theory Spec2Isabelle
  imports Complex_Main "HOL-Library.Signed_Division"
begin

section \<open>Numeric conventions\<close>

text \<open>
  The view is written in C over GLib types. A \<^verbatim>\<open>gint\<close> is modelled as \<^typ>\<open>int\<close>,
  a \<^verbatim>\<open>guint\<close> that only ever counts (tile size, grid width and height, a duration)
  as \<^typ>\<open>nat\<close>, and a \<^verbatim>\<open>gdouble\<close>/\<^verbatim>\<open>gfloat\<close> as \<^typ>\<open>real\<close>: the pixel values the view
  stores in \<^verbatim>\<open>gdouble\<close> variables are integers and halves far below the precision of the
  type, so rounding of a \<^verbatim>\<open>gdouble\<close> is not part of the model, and neither is overflow of a
  \<^verbatim>\<open>gint\<close> computation.
  Where C converts a floating value to \<^verbatim>\<open>gint\<close> (passing a \<^verbatim>\<open>double\<close> for a \<^verbatim>\<open>gint\<close>
  parameter, \<^verbatim>\<open>viewport.x += priv->anchor.x\<close>) the value is truncated toward zero.
\<close>

definition gint_of_real :: "real \<Rightarrow> int" where
  "gint_of_real r = (if 0 \<le> r then \<lfloor>r\<rfloor> else \<lceil>r\<rceil>)"

text \<open>Where a \<^verbatim>\<open>gint\<close> meets a \<^verbatim>\<open>guint\<close> in an expression, C converts the
  \<^verbatim>\<open>gint\<close> to unsigned and computes modulo \<open>2 ^ 32\<close>. So
  \<^verbatim>\<open>x_count > champlain_zoom_level_get_width (level)\<close> finds a negative \<open>x_count\<close> larger
  than every width, and \<^verbatim>\<open>width * tile_size - G_MAXINT16 / 2\<close> and \<^verbatim>\<open>x * size\<close> (with
  \<^verbatim>\<open>guint size\<close>) wrap around instead of going below zero.\<close>

definition guint_of_int :: "int \<Rightarrow> nat" where
  "guint_of_int n = nat (n mod 2 ^ 32)"

definition guint_less :: "nat \<Rightarrow> int \<Rightarrow> bool" where
  "guint_less w n = (w < guint_of_int n)"

text \<open>A \<^verbatim>\<open>guint\<close> stored into a \<^verbatim>\<open>gint\<close> field keeps its 32 bits: from \<open>2 ^ 31\<close> on it
  reads as a negative number.\<close>

definition gint_of_guint :: "nat \<Rightarrow> int" where
  "gint_of_guint n =
    (let m = int n mod 2 ^ 32 in if m < 2 ^ 31 then m else m - 2 ^ 32)"

text \<open>A \<^verbatim>\<open>gint\<close> assigned to a \<^verbatim>\<open>gfloat\<close> is rounded to the nearest value with a
  significand of 24 bits, ties to the even one; up to \<open>2 ^ 24\<close> in magnitude it is kept as it
  is. The result is again a whole number, and so is the \<^verbatim>\<open>gfloat\<close> sum of two whole
  numbers.\<close>

fun bit_length :: "nat \<Rightarrow> nat" where
  "bit_length n = (if n = 0 then 0 else Suc (bit_length (n div 2)))"

definition gfloat_of_int :: "int \<Rightarrow> int" where
  "gfloat_of_int n =
    (let a = nat \<bar>n\<bar>;
         e = bit_length a - 24;
         q = a div 2 ^ e;
         r = a mod 2 ^ e;
         q = (if 2 * r > 2 ^ e \<or> (2 * r = 2 ^ e \<and> odd q) then q + 1 else q)
     in sgn n * int (q * 2 ^ e))"

definition G_MAXINT16 :: int where
  "G_MAXINT16 = 32767"

section \<open>Data model\<close>

text \<open>
  The headers that declare these types are not among the sources; the fields are the ones
  \<^verbatim>\<open>champlain-view.c\<close> reads and writes. The tile states are the four of the
  specification's data model.
\<close>

datatype ChamplainState =
  CHAMPLAIN_STATE_INIT | CHAMPLAIN_STATE_LOADING | CHAMPLAIN_STATE_DONE | CHAMPLAIN_STATE_ERROR

record ChamplainFloatPoint =
  fx :: real
  fy :: real

record ChamplainRectangle =
  rx :: int
  ry :: int
  rwidth :: int
  rheight :: int

text \<open>A Clutter actor, as far as the view uses it: the position last given to
  \<^verbatim>\<open>clutter_actor_set_position\<close>.\<close>

record ClutterActor =
  actor_x :: real
  actor_y :: real

record ChamplainTile =
  tile_x :: int
  tile_y :: int
  tile_zoom_level :: int
  tile_size :: nat
  tile_state :: ChamplainState
  tile_actor :: "ClutterActor option"

record ChamplainZoomLevel =
  zl_zoom_level :: int
  zl_width :: nat
  zl_height :: nat
  zl_tiles :: "ChamplainTile list"

record Map =
  current_level :: ChamplainZoomLevel

text \<open>The map source is an external collaborator; its projection, tile size and grid
  dimensions are parameters of the model.\<close>

record ChamplainMapSource =
  get_x :: "int \<Rightarrow> real \<Rightarrow> int"
  get_y :: "int \<Rightarrow> real \<Rightarrow> int"
  get_longitude :: "int \<Rightarrow> int \<Rightarrow> real"
  get_latitude :: "int \<Rightarrow> int \<Rightarrow> real"
  get_tile_size :: nat
  get_row_count :: "int \<Rightarrow> nat"
  get_column_count :: "int \<Rightarrow> nat"
  get_min_zoom_level :: int
  get_max_zoom_level :: int

record GoToContext =
  ctx_timeline :: nat
  to_latitude :: real
  to_longitude :: real
  from_latitude :: real
  from_longitude :: real

text \<open>A Clutter timeline, as far as the view uses it: its duration in milliseconds,
  whether it is running, and the context \<^verbatim>\<open>g_signal_connect\<close> binds to its
  \<^verbatim>\<open>new-frame\<close> handler. \<^verbatim>\<open>GoToContext.timeline\<close> points to one; the pointer is its
  index in the view's \<open>timelines\<close>. Reference counts and \<^verbatim>\<open>g_free\<close> are not modelled.\<close>

record ClutterTimeline =
  tl_duration :: nat
  tl_running :: bool
  tl_data :: GoToContext

text \<open>Calls that leave the view for the host display surface, the tile source or the
  GObject signal machinery are recorded, in order, as effects.\<close>

datatype effect =
    GroupAddTileActor int int int
  | GroupRemoveTileActor int int int
  | FillTile int int int
  | MapLayerAdd int
  | MapLayerRemove int
  | FingerScrollSetSize int int
  | ObjectNotify string
  | SignalEmit string

datatype error = NullPointer | DivisionByZero

record ChamplainView =
  map_source :: ChamplainMapSource
  zoom_level :: int
  min_zoom_level :: int
  max_zoom_level :: int
  longitude :: real
  latitude :: real
  anchor :: ChamplainFloatPoint
  anchor_zoom_level :: real
  view_map :: "Map option"
  finger_scroll :: ClutterActor
  viewport_origin :: ChamplainFloatPoint
  viewport_size :: ChamplainRectangle
  keep_center_on_resize :: bool
  state :: ChamplainState
  goto_context :: "GoToContext option"
  timelines :: "ClutterTimeline list"
  effects :: "effect list"

section \<open>The zoom level's tile array\<close>

definition champlain_zoom_level_get_width :: "ChamplainZoomLevel \<Rightarrow> nat" where
  "champlain_zoom_level_get_width level = zl_width level"

definition champlain_zoom_level_get_height :: "ChamplainZoomLevel \<Rightarrow> nat" where
  "champlain_zoom_level_get_height level = zl_height level"

text \<open>
  Modelled from the spec: \<^verbatim>\<open>champlain-zoom-level.c\<close> is not among the sources (the
  \<^verbatim>\<open>zoomlevel.c\<close> that is there is an earlier, unused interface). The specification
  gives a zoom level the operations \<open>add_tile\<close>, \<open>remove_tile\<close>, \<open>tile_count()\<close> and
  \<open>nth_tile(i)\<close> over the tiles it owns; the view walks them by index, so they are kept
  as a list in insertion order. Tiles are identified by \<open>(x, y)\<close>, and adding one for a
  coordinate that is there already is a no-op. Removing a tile takes out its first
  occurrence; the release of its renderable is a matter of reference counts, which are not
  modelled.
\<close>

definition champlain_zoom_level_tile_count :: "ChamplainZoomLevel \<Rightarrow> nat" where
  "champlain_zoom_level_tile_count level = length (zl_tiles level)"

definition champlain_zoom_level_get_nth_tile ::
    "ChamplainZoomLevel \<Rightarrow> nat \<Rightarrow> ChamplainTile option" where
  "champlain_zoom_level_get_nth_tile level k =
    (if k < length (zl_tiles level) then Some (zl_tiles level ! k) else None)"

definition champlain_zoom_level_add_tile ::
    "ChamplainZoomLevel \<Rightarrow> ChamplainTile \<Rightarrow> ChamplainZoomLevel" where
  "champlain_zoom_level_add_tile level tile =
    (if \<exists>t \<in> set (zl_tiles level). tile_x t = tile_x tile \<and> tile_y t = tile_y tile
     then level
     else level\<lparr>zl_tiles := zl_tiles level @ [tile]\<rparr>)"

definition champlain_zoom_level_remove_tile ::
    "ChamplainZoomLevel \<Rightarrow> ChamplainTile \<Rightarrow> ChamplainZoomLevel" where
  "champlain_zoom_level_remove_tile level tile = level\<lparr>zl_tiles := remove1 tile (zl_tiles level)\<rparr>"

definition champlain_zoom_level_get_zoom_level :: "ChamplainZoomLevel \<Rightarrow> int" where
  "champlain_zoom_level_get_zoom_level level = zl_zoom_level level"

section \<open>The anchor\<close>

text \<open>The anchor \<^verbatim>\<open>view_update_anchor\<close> computes when it recomputes one: the centre less
  half the bound, not below zero, and not above \<open>max\<close> on either axis.\<close>

definition rebased_anchor :: "ChamplainView \<Rightarrow> Map \<Rightarrow> int \<Rightarrow> int \<Rightarrow> ChamplainFloatPoint" where
  "rebased_anchor v m x y =
    (let ax = of_int (x - G_MAXINT16 div 2);
         ay = of_int (y - G_MAXINT16 div 2);
         ax = (if ax < 0 then 0 else ax);
         ay = (if ay < 0 then 0 else ay);
         max = real (guint_of_int
                       (int (champlain_zoom_level_get_width (current_level m) *
                             get_tile_size (map_source v)) - G_MAXINT16 div 2));
         ax = (if max < ax then max else ax);
         ay = (if max < ay then max else ay)
     in \<lparr>fx = ax, fy = ay\<rparr>)"

definition view_update_anchor :: "ChamplainView \<Rightarrow> int \<Rightarrow> int \<Rightarrow> error + ChamplainView" where
  "view_update_anchor v x y =
    (let need_anchor = (8 \<le> zoom_level v);
         need_update =
           (anchor_zoom_level v \<noteq> of_int (zoom_level v) \<or>
            of_int G_MAXINT16 \<le> of_int x - fx (anchor v) + of_int (rwidth (viewport_size v)) \<or>
            of_int G_MAXINT16 \<le> of_int y - fy (anchor v) + of_int (rheight (viewport_size v)))
     in
     case
       (if need_anchor \<and> need_update then
          (case view_map v of
             None \<Rightarrow> Inl NullPointer
           | Some m \<Rightarrow>
               Inr (v\<lparr>anchor := rebased_anchor v m x y,
                      anchor_zoom_level := of_int (zoom_level v)\<rparr>))
        else Inr v)
     of
       Inl e \<Rightarrow> Inl e
     | Inr v1 \<Rightarrow>
         if \<not> need_anchor then
           Inr (v1\<lparr>anchor := \<lparr>fx = 0, fy = 0\<rparr>, anchor_zoom_level := of_int (zoom_level v1)\<rparr>)
         else Inr v1)"

section \<open>Tile positions and the view's aggregate state\<close>

text \<open>\<^verbatim>\<open>view_position_tile\<close> moves the tile's actor; the tile is shared by pointer with
  the zoom level's array, so the model returns the tile as the array then holds it.\<close>

definition view_position_tile :: "ChamplainView \<Rightarrow> ChamplainTile \<Rightarrow> ChamplainTile" where
  "view_position_tile v tile =
    (case tile_actor tile of
       None \<Rightarrow> tile
     | Some actor \<Rightarrow>
         tile\<lparr>tile_actor := Some (actor\<lparr>
           actor_x := real (guint_of_int (tile_x tile * int (tile_size tile))) - fx (anchor v),
           actor_y := real (guint_of_int (tile_y tile * int (tile_size tile))) - fy (anchor v)\<rparr>)\<rparr>)"

definition view_tiles_reposition :: "ChamplainView \<Rightarrow> error + ChamplainView" where
  "view_tiles_reposition v =
    (case view_map v of
       None \<Rightarrow> Inl NullPointer
     | Some m \<Rightarrow>
         Inr (v\<lparr>view_map := Some (m\<lparr>current_level := (current_level m)\<lparr>zl_tiles :=
           map (\<lambda>tile. if tile_state tile = CHAMPLAIN_STATE_DONE
                        then view_position_tile v tile else tile)
               (zl_tiles (current_level m))\<rparr>\<rparr>)\<rparr>))"

definition view_update_state :: "ChamplainView \<Rightarrow> error + ChamplainView" where
  "view_update_state v =
    (case view_map v of
       None \<Rightarrow> Inl NullPointer
     | Some m \<Rightarrow>
         let new_state =
               fold (\<lambda>tile s. if tile_state tile = CHAMPLAIN_STATE_LOADING
                              then CHAMPLAIN_STATE_LOADING else s)
                    (zl_tiles (current_level m)) CHAMPLAIN_STATE_DONE
         in if state v \<noteq> new_state
            then Inr (v\<lparr>state := new_state, effects := effects v @ [ObjectNotify ''state'']\<rparr>)
            else Inr v)"

section \<open>Visible-tile reconciliation\<close>

text \<open>
  Modelled from the spec: \<^verbatim>\<open>champlain-tile.c\<close> and the map source's
  \<^verbatim>\<open>fill_tile\<close> are not among the sources. A tile is created empty, in state
  \<open>Init\<close>, with a placeholder actor; filling it transitions it to \<open>Loading\<close> and issues
  the fetch (recorded as the effect \<open>FillTile\<close>); the tile size is the map source's.
\<close>

definition champlain_tile_new :: ChamplainTile where
  "champlain_tile_new =
    \<lparr>tile_x = 0, tile_y = 0, tile_zoom_level = 0, tile_size = 0,
     tile_state = CHAMPLAIN_STATE_INIT, tile_actor = Some \<lparr>actor_x = 0, actor_y = 0\<rparr>\<rparr>"

definition champlain_map_source_fill_tile ::
    "ChamplainMapSource \<Rightarrow> ChamplainTile \<Rightarrow> ChamplainTile" where
  "champlain_map_source_fill_tile source tile =
    tile\<lparr>tile_size := get_tile_size source, tile_state := CHAMPLAIN_STATE_LOADING\<rparr>"

text \<open>The range of grid cells \<^verbatim>\<open>view_load_visible_tiles\<close> computes before its two
  passes: \<open>(x_first, y_first, x_count, y_count)\<close>, where the counts have already been turned
  into end columns and rows and clamped to the grid.\<close>

definition visible_range :: "ChamplainView \<Rightarrow> ChamplainZoomLevel \<Rightarrow> int \<times> int \<times> int \<times> int" where
  "visible_range v level =
    (let viewport = viewport_size v;
         vx = gint_of_real (of_int (rx viewport) + fx (anchor v));
         vy = gint_of_real (of_int (ry viewport) + fy (anchor v));
         size = get_tile_size (map_source v);
         vx = (if vx < 0 then 0 else vx);
         vy = (if vy < 0 then 0 else vy);
         x_count = \<lceil>real_of_int (rwidth viewport) / real size\<rceil> + 1;
         y_count = \<lceil>real_of_int (rheight viewport) / real size\<rceil> + 1;
         x_first = vx div int size;
         y_first = vy div int size;
         x_count = x_count + x_first;
         y_count = y_count + y_first;
         x_count = (if guint_less (champlain_zoom_level_get_width level) x_count
                    then int (champlain_zoom_level_get_width level) else x_count);
         y_count = (if guint_less (champlain_zoom_level_get_height level) y_count
                    then int (champlain_zoom_level_get_height level) else y_count)
     in (x_first, y_first, x_count, y_count))"

text \<open>The first pass, \<^verbatim>\<open>while (k < count)\<close>: a tile outside the range is taken out of
  the array (and its actor out of the group when the tile is done), and \<open>k\<close> stays; otherwise
  \<open>k\<close> advances.\<close>

function remove_old_tiles ::
    "int \<Rightarrow> int \<Rightarrow> int \<Rightarrow> int \<Rightarrow> nat \<Rightarrow> ChamplainZoomLevel \<Rightarrow> effect list
      \<Rightarrow> ChamplainZoomLevel \<times> effect list" where
  "remove_old_tiles x_first y_first x_count y_count k level effs =
    (if k < champlain_zoom_level_tile_count level then
       (case champlain_zoom_level_get_nth_tile level k of
          None \<Rightarrow> remove_old_tiles x_first y_first x_count y_count (k + 1) level effs
        | Some tile \<Rightarrow>
            if tile_x tile < x_first \<or> x_count < tile_x tile \<or>
               tile_y tile < y_first \<or> y_count < tile_y tile
            then
              remove_old_tiles x_first y_first x_count y_count k
                (champlain_zoom_level_remove_tile level tile)
                (effs @ (if tile_state tile = CHAMPLAIN_STATE_DONE \<and> tile_actor tile \<noteq> None
                         then [GroupRemoveTileActor (zl_zoom_level level) (tile_x tile) (tile_y tile)]
                         else []))
            else remove_old_tiles x_first y_first x_count y_count (k + 1) level effs)
     else (level, effs))"
  by pat_completeness auto
termination
proof (relation "measure (\<lambda>(xf, yf, xc, yc, k, level, effs). 2 * length (zl_tiles level) - k)")
  show "wf (measure (\<lambda>(xf, yf, xc, yc, k, level, effs). 2 * length (zl_tiles level) - k))"
    by simp
next
  fix x_first y_first x_count y_count :: int and k :: nat
    and level :: ChamplainZoomLevel and effs :: "effect list"
  assume "k < champlain_zoom_level_tile_count level"
  then show "((x_first, y_first, x_count, y_count, k + 1, level, effs),
              (x_first, y_first, x_count, y_count, k, level, effs))
             \<in> measure (\<lambda>(xf, yf, xc, yc, k, level, effs). 2 * length (zl_tiles level) - k)"
    by (simp add: champlain_zoom_level_tile_count_def)
next
  fix x_first y_first x_count y_count :: int and k :: nat
    and level :: ChamplainZoomLevel and effs :: "effect list" and tile :: ChamplainTile
  assume k: "k < champlain_zoom_level_tile_count level"
    and nth: "champlain_zoom_level_get_nth_tile level k = Some tile"
  from k nth have "tile \<in> set (zl_tiles level)"
    by (auto simp: champlain_zoom_level_get_nth_tile_def champlain_zoom_level_tile_count_def)
  then have "length (remove1 tile (zl_tiles level)) = length (zl_tiles level) - 1"
    by (simp add: length_remove1)
  with k show "((x_first, y_first, x_count, y_count, k,
               champlain_zoom_level_remove_tile level tile,
               effs @ (if tile_state tile = CHAMPLAIN_STATE_DONE \<and> tile_actor tile \<noteq> None
                       then [GroupRemoveTileActor (zl_zoom_level level) (tile_x tile) (tile_y tile)]
                       else [])),
              (x_first, y_first, x_count, y_count, k, level, effs))
             \<in> measure (\<lambda>(xf, yf, xc, yc, k, level, effs). 2 * length (zl_tiles level) - k)"
    by (simp add: champlain_zoom_level_remove_tile_def champlain_zoom_level_tile_count_def)
next
  fix x_first y_first x_count y_count :: int and k :: nat
    and level :: ChamplainZoomLevel and effs :: "effect list"
  assume "k < champlain_zoom_level_tile_count level"
  then show "((x_first, y_first, x_count, y_count, k + 1, level, effs),
              (x_first, y_first, x_count, y_count, k, level, effs))
             \<in> measure (\<lambda>(xf, yf, xc, yc, k, level, effs). 2 * length (zl_tiles level) - k)"
    by (simp add: champlain_zoom_level_tile_count_def)
qed

text \<open>The innermost loop of the second pass, \<^verbatim>\<open>for (k = 0; k < count && !exist; k++)\<close>:
  is there a tile at cell \<open>(i, j)\<close>?\<close>

primrec tile_exists :: "ChamplainTile list \<Rightarrow> int \<Rightarrow> int \<Rightarrow> bool" where
  "tile_exists [] i j = False"
| "tile_exists (tile # tiles) i j =
    (if tile_x tile = i \<and> tile_y tile = j then True else tile_exists tiles i j)"

text \<open>The handler the view connects to a tile's \<^verbatim>\<open>notify::state\<close> positions the tile
  and recomputes the aggregate state. It runs when the tile source moves the new tile to
  \<open>Loading\<close>, so the tile enters the array already filled and positioned.\<close>

definition load_tile :: "int \<Rightarrow> int \<Rightarrow> ChamplainView \<Rightarrow> error + ChamplainView" where
  "load_tile i j v =
    (case view_map v of
       None \<Rightarrow> Inl NullPointer
     | Some m \<Rightarrow>
         let level = current_level m in
         if tile_exists (zl_tiles level) i j then Inr v
         else
           let tile = champlain_tile_new\<lparr>tile_x := i, tile_y := j,
                        tile_zoom_level := champlain_zoom_level_get_zoom_level level\<rparr>;
               tile = champlain_map_source_fill_tile (map_source v) tile;
               tile = view_position_tile v tile
           in view_update_state
                (v\<lparr>view_map := Some (m\<lparr>current_level := champlain_zoom_level_add_tile level tile\<rparr>),
                   effects := effects v @
                     [GroupAddTileActor (champlain_zoom_level_get_zoom_level level) i j,
                      FillTile (champlain_zoom_level_get_zoom_level level) i j]\<rparr>))"

definition load_new_tiles ::
    "int \<Rightarrow> int \<Rightarrow> int \<Rightarrow> int \<Rightarrow> ChamplainView \<Rightarrow> error + ChamplainView" where
  "load_new_tiles x_first y_first x_count y_count v =
    fold (\<lambda>i. fold (\<lambda>j r. case r of Inl e \<Rightarrow> Inl e | Inr v' \<Rightarrow> load_tile i j v')
                    [y_first..y_count - 1])
         [x_first..x_count - 1] (Inr v)"

definition view_load_visible_tiles :: "ChamplainView \<Rightarrow> error + ChamplainView" where
  "view_load_visible_tiles v =
    (case view_map v of
       None \<Rightarrow> Inl NullPointer
     | Some m \<Rightarrow>
         if get_tile_size (map_source v) = 0 then Inl DivisionByZero
         else
           (case visible_range v (current_level m) of
              (x_first, y_first, x_count, y_count) \<Rightarrow>
                (case remove_old_tiles x_first y_first x_count y_count 0
                        (current_level m) (effects v) of
                   (level, effs) \<Rightarrow>
                     (case load_new_tiles x_first y_first x_count y_count
                             (v\<lparr>view_map := Some (m\<lparr>current_level := level\<rparr>),
                                effects := effs\<rparr>) of
                        Inl e \<Rightarrow> Inl e
                      | Inr v2 \<Rightarrow> view_update_state v2))))"

section \<open>The viewport and its position handler\<close>

text \<open>
  The view keeps the raw origin it last saw in \<open>viewport_size\<close>; the scrolling viewport
  (a \<^verbatim>\<open>TidyViewport\<close>) holds the origin itself, here \<open>viewport_origin\<close>.

  Modelled from the spec: the Tidy viewport is not among the sources. Its origin is mutated
  by scroll events and by recentring, and every change is reported to the view: setting an
  origin that differs from the current one stores it and runs the handler the view connected
  to \<^verbatim>\<open>notify::x-origin\<close> and \<^verbatim>\<open>notify::y-origin\<close>, \<^verbatim>\<open>viewport_pos_changed_cb\<close>.
  Markers, polygons and the license text are outside the model.
\<close>

definition tidy_viewport_get_origin :: "ChamplainView \<Rightarrow> ChamplainFloatPoint" where
  "tidy_viewport_get_origin v = viewport_origin v"

definition viewport_get_longitude_at :: "ChamplainView \<Rightarrow> int \<Rightarrow> real" where
  "viewport_get_longitude_at v x = get_longitude (map_source v) (zoom_level v) x"

definition viewport_get_current_longitude :: "ChamplainView \<Rightarrow> real" where
  "viewport_get_current_longitude v =
    (if view_map v = None then 0
     else viewport_get_longitude_at v
            (gint_of_real (fx (anchor v) + of_int (rx (viewport_size v)) +
                           of_int (rwidth (viewport_size v)) / 2)))"

definition viewport_get_latitude_at :: "ChamplainView \<Rightarrow> int \<Rightarrow> real" where
  "viewport_get_latitude_at v y = get_latitude (map_source v) (zoom_level v) y"

definition viewport_get_current_latitude :: "ChamplainView \<Rightarrow> real" where
  "viewport_get_current_latitude v =
    (if view_map v = None then 0
     else viewport_get_latitude_at v
            (gint_of_real (fy (anchor v) + of_int (ry (viewport_size v)) +
                           of_int (rheight (viewport_size v)) / 2)))"

text \<open>Does the handler, run on \<open>v\<close>, find that the anchor's \<open>x\<close> changed and move the
  origin again? This is what the recursion between the handler and the viewport descends on.\<close>

definition anchor_moves :: "ChamplainView \<Rightarrow> bool" where
  "anchor_moves v =
    (let rect = tidy_viewport_get_origin v in
     \<not> (fx rect = of_int (rx (viewport_size v)) \<and> fy rect = of_int (ry (viewport_size v))) \<and>
     (case view_update_anchor v
             (gint_of_real (fx rect + fx (anchor v) + of_int (rwidth (viewport_size v)) / 2))
             (gint_of_real (fy rect + fy (anchor v) + of_int (rheight (viewport_size v)) / 2)) of
        Inl e \<Rightarrow> False
      | Inr v1 \<Rightarrow> fx (anchor v1) - fx (anchor v) \<noteq> 0))"

function viewport_pos_changed_cb :: "ChamplainView \<Rightarrow> error + ChamplainView"
  and tidy_viewport_set_origin :: "ChamplainView \<Rightarrow> real \<Rightarrow> real \<Rightarrow> error + ChamplainView" where
  "viewport_pos_changed_cb v =
    (let rect = tidy_viewport_get_origin v in
     if fx rect = of_int (rx (viewport_size v)) \<and> fy rect = of_int (ry (viewport_size v))
     then Inr v
     else
       (case view_update_anchor v
               (gint_of_real (fx rect + fx (anchor v) + of_int (rwidth (viewport_size v)) / 2))
               (gint_of_real (fy rect + fy (anchor v) + of_int (rheight (viewport_size v)) / 2)) of
          Inl e \<Rightarrow> Inl e
        | Inr v1 \<Rightarrow>
            if fx (anchor v1) - fx (anchor v) \<noteq> 0 then
              tidy_viewport_set_origin v1
                (fx rect - (fx (anchor v1) - fx (anchor v)))
                (fy rect - (fy (anchor v1) - fy (anchor v)))
            else
              (case view_load_visible_tiles
                      (v1\<lparr>viewport_size := (viewport_size v1)\<lparr>rx := gint_of_real (fx rect),
                                                               ry := gint_of_real (fy rect)\<rparr>\<rparr>) of
                 Inl e \<Rightarrow> Inl e
               | Inr v2 \<Rightarrow>
                   (case view_tiles_reposition v2 of
                      Inl e \<Rightarrow> Inl e
                    | Inr v3 \<Rightarrow>
                        Inr (v3\<lparr>longitude := viewport_get_current_longitude v3,
                                 latitude := viewport_get_current_latitude v3,
                                 effects := effects v3 @
                                   [ObjectNotify ''longitude'', ObjectNotify ''latitude'']\<rparr>)))))"
| "tidy_viewport_set_origin v x y =
    (if fx (viewport_origin v) = x \<and> fy (viewport_origin v) = y then Inr v
     else viewport_pos_changed_cb (v\<lparr>viewport_origin := \<lparr>fx = x, fy = y\<rparr>\<rparr>))"
  by pat_completeness auto

section \<open>Resizing and recentring\<close>

text \<open>Of \<^verbatim>\<open>resize_viewport\<close> the model keeps the guard and the resize of the scroll actor;
  the scroll adjustments and the polygon textures it also sets are outside the model.\<close>

definition resize_viewport :: "ChamplainView \<Rightarrow> ChamplainView" where
  "resize_viewport v =
    (if view_map v = None then v
     else v\<lparr>effects := effects v @
            [FingerScrollSetSize (rwidth (viewport_size v)) (rheight (viewport_size v))]\<rparr>)"

text \<open>
  Modelled from the spec: \<^verbatim>\<open>map.c\<close> is not among the sources. Loading a level asks the
  map source for a zoom level sized for the target zoom, with no tiles yet; zooming fails
  outside the source's \<open>[min_zoom, max_zoom]\<close> and otherwise swaps the active level.
\<close>

definition map_load_level :: "ChamplainMapSource \<Rightarrow> int \<Rightarrow> Map" where
  "map_load_level source zoom =
    \<lparr>current_level = \<lparr>zl_zoom_level = zoom, zl_width = get_column_count source zoom,
                       zl_height = get_row_count source zoom, zl_tiles = []\<rparr>\<rparr>"

definition map_zoom_to :: "Map \<Rightarrow> ChamplainMapSource \<Rightarrow> int \<Rightarrow> Map option" where
  "map_zoom_to m source zoom =
    (if zoom < get_min_zoom_level source \<or> get_max_zoom_level source < zoom then None
     else Some (map_load_level source zoom))"

definition create_initial_map :: "ChamplainView \<Rightarrow> error + ChamplainView" where
  "create_initial_map v =
    (let v1 = v\<lparr>view_map := Some (map_load_level (map_source v) (zoom_level v)),
                 effects := effects v @ [MapLayerAdd (zoom_level v)]\<rparr>
     in case view_tiles_reposition v1 of
          Inl e \<Rightarrow> Inl e
        | Inr v2 \<Rightarrow>
            Inr (v2\<lparr>effects := effects v2 @
                   [ObjectNotify ''zoom-level'', ObjectNotify ''map-source'']\<rparr>))"

definition champlain_view_center_on :: "ChamplainView \<Rightarrow> real \<Rightarrow> real \<Rightarrow> error + ChamplainView" where
  "champlain_view_center_on v lat lon =
    (case (let v1 = v\<lparr>longitude := lon, latitude := lat\<rparr>
           in if view_map v1 = None then create_initial_map v1 else Inr v1) of
       Inl e \<Rightarrow> Inl e
     | Inr v2 \<Rightarrow>
         let x = get_x (map_source v2) (zoom_level v2) lon;
             y = get_y (map_source v2) (zoom_level v2) lat
         in (case view_update_anchor v2 x y of
               Inl e \<Rightarrow> Inl e
             | Inr v3 \<Rightarrow>
                 let x' = gint_of_real (of_int x - fx (anchor v3));
                     y' = gint_of_real (of_int y - fy (anchor v3))
                 in (case tidy_viewport_set_origin v3
                            (of_int x' - of_int (rwidth (viewport_size v3)) / 2)
                            (of_int y' - of_int (rheight (viewport_size v3)) / 2) of
                       Inl e \<Rightarrow> Inl e
                     | Inr v4 \<Rightarrow>
                         (case view_load_visible_tiles
                                 (v4\<lparr>effects := effects v4 @
                                    [ObjectNotify ''longitude'', ObjectNotify ''latitude'']\<rparr>) of
                            Inl e \<Rightarrow> Inl e
                          | Inr v5 \<Rightarrow> view_tiles_reposition v5))))"

text \<open>\<^verbatim>\<open>champlain_view_set_size\<close> takes \<^verbatim>\<open>guint width, height\<close> and stores them in the
  signed fields of \<open>viewport_size\<close>. It has no guard for a view without a map.\<close>

definition champlain_view_set_size :: "ChamplainView \<Rightarrow> nat \<Rightarrow> nat \<Rightarrow> error + ChamplainView" where
  "champlain_view_set_size v width height =
    (let v1 = v\<lparr>viewport_size := (viewport_size v)\<lparr>rwidth := gint_of_guint width,
                                                    rheight := gint_of_guint height\<rparr>\<rparr>;
         v2 = resize_viewport v1
     in if keep_center_on_resize v2
        then champlain_view_center_on v2 (latitude v2) (longitude v2)
        else view_load_visible_tiles v2)"

section \<open>The go-to animation\<close>

definition champlain_view_stop_go_to :: "ChamplainView \<Rightarrow> ChamplainView" where
  "champlain_view_stop_go_to v =
    (case goto_context v of
       None \<Rightarrow> v
     | Some ctx \<Rightarrow>
         v\<lparr>timelines := (timelines v)[ctx_timeline ctx :=
                    (timelines v ! ctx_timeline ctx)\<lparr>tl_running := False\<rparr>],
           effects := effects v @ [SignalEmit ''animation-completed::go-to''],
           goto_context := None\<rparr>)"

text \<open>The interpolation of \<^verbatim>\<open>timeline_new_frame\<close> is \<^verbatim>\<open>gdouble\<close> arithmetic, taken here
  in the reals: nothing below relies on \<open>from + 1 * (to - from)\<close> being \<open>to\<close>, which the
  code's rounded sum need not be.\<close>

definition timeline_new_frame :: "ChamplainView \<Rightarrow> GoToContext \<Rightarrow> real \<Rightarrow> error + ChamplainView" where
  "timeline_new_frame v ctx alpha =
    (let lat = to_latitude ctx - from_latitude ctx;
         lon = to_longitude ctx - from_longitude ctx
     in champlain_view_center_on v
          (from_latitude ctx + alpha * lat)
          (from_longitude ctx + alpha * lon))"

definition timeline_completed :: "ChamplainView \<Rightarrow> ChamplainView" where
  "timeline_completed v = champlain_view_stop_go_to v"

definition champlain_view_go_to_with_duration ::
    "ChamplainView \<Rightarrow> real \<Rightarrow> real \<Rightarrow> nat \<Rightarrow> error + ChamplainView" where
  "champlain_view_go_to_with_duration v lat lon duration =
    (if duration = 0 then champlain_view_center_on v lat lon
     else
       let v1 = champlain_view_stop_go_to v;
           ctx = \<lparr>ctx_timeline = length (timelines v1),
                  to_latitude = lat, to_longitude = lon,
                  from_latitude = latitude v1, from_longitude = longitude v1\<rparr>
       in Inr (v1\<lparr>goto_context := Some ctx,
                  timelines := timelines v1 @
                    [\<lparr>tl_duration = duration, tl_running = True, tl_data = ctx\<rparr>]\<rparr>))"

definition champlain_view_go_to :: "ChamplainView \<Rightarrow> real \<Rightarrow> real \<Rightarrow> error + ChamplainView" where
  "champlain_view_go_to v lat lon =
    champlain_view_go_to_with_duration v lat lon
      (nat (gint_of_real (500 * of_int (zoom_level v) / 2)))"

text \<open>
  Modelled from the spec: the frame clock is an external collaborator that delivers ticks to
  the animation. Clutter drives a timeline only while it runs: a \<^verbatim>\<open>new-frame\<close> with the
  eased progress \<open>alpha\<close>, and \<^verbatim>\<open>completed\<close> once the elapsed time reaches the
  duration; each runs the handler \<^verbatim>\<open>champlain_view_go_to_with_duration\<close> connected.
\<close>

definition clutter_timeline_emit_new_frame ::
    "ChamplainView \<Rightarrow> nat \<Rightarrow> real \<Rightarrow> error + ChamplainView" where
  "clutter_timeline_emit_new_frame v t alpha =
    (if t < length (timelines v) \<and> tl_running (timelines v ! t)
     then timeline_new_frame v (tl_data (timelines v ! t)) alpha
     else Inr v)"

definition clutter_timeline_emit_completed :: "ChamplainView \<Rightarrow> nat \<Rightarrow> ChamplainView" where
  "clutter_timeline_emit_completed v t =
    (if t < length (timelines v) \<and> tl_running (timelines v ! t)
     then timeline_completed v
     else v)"

section \<open>Changing the zoom level\<close>

definition ZOOM_LEVEL_OUT_OF_RANGE :: "ChamplainView \<Rightarrow> int \<Rightarrow> bool" where
  "ZOOM_LEVEL_OUT_OF_RANGE v level = (level < min_zoom_level v \<or> max_zoom_level v < level)"

definition champlain_view_set_zoom_level :: "ChamplainView \<Rightarrow> int \<Rightarrow> error + ChamplainView" where
  "champlain_view_set_zoom_level v zoom =
    (if view_map v = None then Inr v
     else if zoom = zoom_level v \<or> ZOOM_LEVEL_OUT_OF_RANGE v zoom then Inr v
     else
       let v1 = champlain_view_stop_go_to v in
       (case view_map v1 of
          None \<Rightarrow> Inl NullPointer
        | Some m \<Rightarrow>
            (case map_zoom_to m (map_source v1) zoom of
               None \<Rightarrow> Inr v1
             | Some m' \<Rightarrow>
                 let v2 = v1\<lparr>view_map := Some m', zoom_level := zoom\<rparr>;
                     lon = longitude v2;
                     lat = latitude v2;
                     v3 = resize_viewport v2;
                     v4 = v3\<lparr>effects := effects v3 @
                            [MapLayerRemove (zl_zoom_level (current_level m)),
                             MapLayerAdd (zl_zoom_level (current_level m'))]\<rparr>
                 in (case champlain_view_center_on v4 lat lon of
                       Inl e \<Rightarrow> Inl e
                     | Inr v5 \<Rightarrow>
                         Inr (v5\<lparr>effects := effects v5 @ [ObjectNotify ''zoom-level'']\<rparr>)))))"

text \<open>The variant that keeps the point \<open>(x, y)\<close> of the stage where it is returns a
  \<^verbatim>\<open>gboolean\<close>. The scroll actor's position on the stage is the actor's recorded position,
  and the pointer's offset from it, a difference of stage coordinates, is taken exactly.
  The new pixel coordinates are held in \<^verbatim>\<open>gfloat x2, y2\<close>, and \<^verbatim>\<open>x2 + x_diff\<close> is a
  \<^verbatim>\<open>gfloat\<close> sum, so from \<open>2 ^ 24\<close> pixels on they are rounded.\<close>

definition view_set_zoom_level_at ::
    "ChamplainView \<Rightarrow> int \<Rightarrow> int \<Rightarrow> int \<Rightarrow> error + (bool \<times> ChamplainView)" where
  "view_set_zoom_level_at v zoom x y =
    (if zoom = zoom_level v \<or> ZOOM_LEVEL_OUT_OF_RANGE v zoom then Inr (False, v)
     else
       let v1 = champlain_view_stop_go_to v in
       (case view_map v1 of
          None \<Rightarrow> Inl NullPointer
        | Some m \<Rightarrow>
            let rel_x = of_int x - actor_x (finger_scroll v1);
                rel_y = of_int y - actor_y (finger_scroll v1);
                lon = viewport_get_longitude_at v1
                        (gint_of_real (of_int (rx (viewport_size v1)) + rel_x + fx (anchor v1)));
                lat = viewport_get_latitude_at v1
                        (gint_of_real (of_int (ry (viewport_size v1)) + rel_y + fy (anchor v1)));
                x_diff = gint_of_real (of_int (rwidth (viewport_size v1) sdiv 2) - rel_x);
                y_diff = gint_of_real (of_int (rheight (viewport_size v1) sdiv 2) - rel_y)
            in (case map_zoom_to m (map_source v1) zoom of
                  None \<Rightarrow> Inr (False, v1)
                | Some m' \<Rightarrow>
                    let v2 = v1\<lparr>view_map := Some m', zoom_level := zoom\<rparr>;
                        x2 = gfloat_of_int (get_x (map_source v2) (zoom_level v2) lon);
                        y2 = gfloat_of_int (get_y (map_source v2) (zoom_level v2) lat);
                        lon2 = get_longitude (map_source v2) (zoom_level v2)
                                 (gfloat_of_int (x2 + gfloat_of_int x_diff));
                        lat2 = get_latitude (map_source v2) (zoom_level v2)
                                 (gfloat_of_int (y2 + gfloat_of_int y_diff));
                        v3 = resize_viewport v2;
                        v4 = v3\<lparr>effects := effects v3 @
                               [MapLayerRemove (zl_zoom_level (current_level m)),
                                MapLayerAdd (zl_zoom_level (current_level m'))]\<rparr>
                    in (case champlain_view_center_on v4 lat2 lon2 of
                          Inl e \<Rightarrow> Inl e
                        | Inr v5 \<Rightarrow>
                            Inr (True, v5\<lparr>effects := effects v5 @
                                          [ObjectNotify ''zoom-level'']\<rparr>)))))"

section \<open>Making two positions visible\<close>

text \<open>The \<^verbatim>\<open>do ... while (good_size == FALSE)\<close> of \<^verbatim>\<open>champlain_view_ensure_visible\<close>:
  it returns the zoom level it stops at and whether the box fitted there.\<close>

function ensure_visible_loop ::
    "ChamplainView \<Rightarrow> real \<Rightarrow> real \<Rightarrow> real \<Rightarrow> real \<Rightarrow> int \<Rightarrow> int \<times> bool" where
  "ensure_visible_loop v min_lat min_lon max_lat max_lon zoom =
    (let min_x = get_x (map_source v) zoom min_lon;
         min_y = get_y (map_source v) zoom min_lat;
         max_x = get_x (map_source v) zoom max_lon;
         max_y = get_y (map_source v) zoom max_lat;
         good_size = (min_y - max_y \<le> rheight (viewport_size v) \<and>
                      max_x - min_x \<le> rwidth (viewport_size v));
         zoom' = (if good_size then zoom else zoom - 1)
     in if zoom' \<le> min_zoom_level v then (zoom', good_size)
        else if \<not> good_size
          then ensure_visible_loop v min_lat min_lon max_lat max_lon zoom'
          else (zoom', good_size))"
  by pat_completeness auto
termination
  by (relation "measure (\<lambda>(v, min_lat, min_lon, max_lat, max_lon, zoom).
                           nat (zoom - min_zoom_level v))") auto

text \<open>What \<^verbatim>\<open>champlain_view_ensure_visible\<close> settles on before it acts: the zoom level and
  the latitude and longitude it then centres on.\<close>

definition ensure_visible_target ::
    "ChamplainView \<Rightarrow> real \<Rightarrow> real \<Rightarrow> real \<Rightarrow> real \<Rightarrow> int \<times> real \<times> real" where
  "ensure_visible_target v lat1 lon1 lat2 lon2 =
    (let min_lat = (if lat1 < lat2 then lat1 else lat2);
         max_lat = (if lat1 < lat2 then lat2 else lat1);
         min_lon = (if lon1 < lon2 then lon1 else lon2);
         max_lon = (if lon1 < lon2 then lon2 else lon1);
         width = (max_lon - min_lon) * 1.1;
         height = (max_lat - min_lat) * 1.1
     in case ensure_visible_loop v min_lat min_lon max_lat max_lon (zoom_level v) of
          (zoom, good_size) \<Rightarrow>
            let zoom = (if \<not> good_size then min_zoom_level v else zoom);
                min_lat = (if \<not> good_size then 0 else min_lat);
                min_lon = (if \<not> good_size then 0 else min_lon);
                width = (if \<not> good_size then 0 else width);
                height = (if \<not> good_size then 0 else height)
            in (zoom, min_lat + height / 2, min_lon + width / 2))"

definition champlain_view_ensure_visible ::
    "ChamplainView \<Rightarrow> real \<Rightarrow> real \<Rightarrow> real \<Rightarrow> real \<Rightarrow> bool \<Rightarrow> error + ChamplainView" where
  "champlain_view_ensure_visible v lat1 lon1 lat2 lon2 animate =
    (case ensure_visible_target v lat1 lon1 lat2 lon2 of
       (zoom, lat, lon) \<Rightarrow>
         (case champlain_view_set_zoom_level v zoom of
            Inl e \<Rightarrow> Inl e
          | Inr v1 \<Rightarrow>
              if animate then champlain_view_go_to v1 lat lon
              else champlain_view_center_on v1 lat lon))"

section \<open>The operations on a view\<close>

text \<open>What can happen to a view once it is constructed: a call of one of its functions, a
  scroll of the viewport, or a tick of the frame clock on one of its timelines.\<close>

datatype operation =
    CenterOn real real
  | SetSize nat nat
  | StopGoTo
  | GoTo real real
  | GoToWithDuration real real nat
  | SetZoomLevel int
  | SetZoomLevelAt int int int
  | EnsureVisible real real real real bool
  | Scroll real real
  | NewFrame nat real
  | Completed nat

fun perform :: "operation \<Rightarrow> ChamplainView \<Rightarrow> error + ChamplainView" where
  "perform (CenterOn lat lon) v = champlain_view_center_on v lat lon"
| "perform (SetSize width height) v = champlain_view_set_size v width height"
| "perform StopGoTo v = Inr (champlain_view_stop_go_to v)"
| "perform (GoTo lat lon) v = champlain_view_go_to v lat lon"
| "perform (GoToWithDuration lat lon duration) v =
     champlain_view_go_to_with_duration v lat lon duration"
| "perform (SetZoomLevel zoom) v = champlain_view_set_zoom_level v zoom"
| "perform (SetZoomLevelAt zoom x y) v =
     (case view_set_zoom_level_at v zoom x y of Inl e \<Rightarrow> Inl e | Inr (ok, v') \<Rightarrow> Inr v')"
| "perform (EnsureVisible lat1 lon1 lat2 lon2 animate) v =
     champlain_view_ensure_visible v lat1 lon1 lat2 lon2 animate"
| "perform (Scroll x y) v = tidy_viewport_set_origin v x y"
| "perform (NewFrame t alpha) v = clutter_timeline_emit_new_frame v t alpha"
| "perform (Completed t) v = Inr (clutter_timeline_emit_completed v t)"

definition perform_all :: "operation list \<Rightarrow> ChamplainView \<Rightarrow> error + ChamplainView" where
  "perform_all ops v =
    fold (\<lambda>op r. case r of Inl e \<Rightarrow> Inl e | Inr u \<Rightarrow> perform op u) ops (Inr v)"

section \<open>Sample views\<close>

text \<open>A map source in the manner of the library's own: square grids of \<open>2 ^ zoom\<close> tiles
  of 256 pixels and a linear projection, with zoom levels 0 to 18.\<close>

definition sample_source :: ChamplainMapSource where
  "sample_source =
    \<lparr>get_x = (\<lambda>z lon. gint_of_real ((lon + 180) / 360 * 256 * 2 ^ nat z)),
     get_y = (\<lambda>z lat. gint_of_real ((90 - lat) / 180 * 256 * 2 ^ nat z)),
     get_longitude = (\<lambda>z x. of_int x * 360 / (256 * 2 ^ nat z) - 180),
     get_latitude = (\<lambda>z y. 90 - of_int y * 180 / (256 * 2 ^ nat z)),
     get_tile_size = 256,
     get_row_count = (\<lambda>z. 2 ^ nat z),
     get_column_count = (\<lambda>z. 2 ^ nat z),
     get_min_zoom_level = 0,
     get_max_zoom_level = 18\<rparr>"

definition done_tile :: "int \<Rightarrow> int \<Rightarrow> int \<Rightarrow> ChamplainTile" where
  "done_tile z i j =
    \<lparr>tile_x = i, tile_y = j, tile_zoom_level = z, tile_size = 256,
     tile_state = CHAMPLAIN_STATE_DONE,
     tile_actor = Some \<lparr>actor_x = of_int (i * 256), actor_y = of_int (j * 256)\<rparr>\<rparr>"

text \<open>A view of 100 by 100 pixels at zoom level 3, showing the top left corner of the map,
  with no tile loaded yet and no animation.\<close>

definition sample_view :: ChamplainView where
  "sample_view =
    \<lparr>map_source = sample_source, zoom_level = 3, min_zoom_level = 0, max_zoom_level = 18,
     longitude = 0, latitude = 0, anchor = \<lparr>fx = 0, fy = 0\<rparr>, anchor_zoom_level = 3,
     view_map = Some \<lparr>current_level =
       \<lparr>zl_zoom_level = 3, zl_width = 8, zl_height = 8, zl_tiles = []\<rparr>\<rparr>,
     finger_scroll = \<lparr>actor_x = 0, actor_y = 0\<rparr>,
     viewport_origin = \<lparr>fx = 0, fy = 0\<rparr>,
     viewport_size = \<lparr>rx = 0, ry = 0, rwidth = 100, rheight = 100\<rparr>,
     keep_center_on_resize = True, state = CHAMPLAIN_STATE_DONE, goto_context = None,
     timelines = [], effects = []\<rparr>"

text \<open>The same view while a go-to towards latitude 10, longitude 20 runs on timeline 0.\<close>

definition sample_context :: GoToContext where
  "sample_context =
    \<lparr>ctx_timeline = 0, to_latitude = 10, to_longitude = 20,
     from_latitude = 0, from_longitude = 0\<rparr>"

definition animating_view :: ChamplainView where
  "animating_view =
    sample_view\<lparr>goto_context := Some sample_context,
      timelines := [\<lparr>tl_duration = 300, tl_running = True, tl_data = sample_context\<rparr>]\<rparr>"

text \<open>A view at zoom level 0, where the whole map is one tile, while a go-to of 300 ms runs
  on timeline 0, as \<^verbatim>\<open>scroll_to\<close> starts one in the kinetic scroll mode.\<close>

definition kinetic_view :: ChamplainView where
  "kinetic_view =
    animating_view\<lparr>zoom_level := 0, anchor_zoom_level := 0,
      view_map := Some \<lparr>current_level =
        \<lparr>zl_zoom_level = 0, zl_width = 1, zl_height = 1, zl_tiles = []\<rparr>\<rparr>\<rparr>"

text \<open>A source whose grids are twice as tall as they are wide, and a view of it at zoom
  level 8, over a grid of 256 columns and 512 rows, whose anchor was last computed for another
  zoom level.\<close>

definition tall_source :: ChamplainMapSource where
  "tall_source = sample_source\<lparr>get_row_count := (\<lambda>z. 2 * 2 ^ nat z)\<rparr>"

definition tall_view :: ChamplainView where
  "tall_view =
    sample_view\<lparr>map_source := tall_source, zoom_level := 8, anchor_zoom_level := 0,
      view_map := Some \<lparr>current_level =
        \<lparr>zl_zoom_level = 8, zl_width = 256, zl_height = 512, zl_tiles = []\<rparr>\<rparr>,
      viewport_size := \<lparr>rx = 0, ry = 0, rwidth = 800, rheight = 600\<rparr>\<rparr>"

text \<open>A view at zoom level 8 near the left edge of the map, scrolled far down with the anchor
  still at the origin: the view last saw the origin \<open>(0, 32600)\<close>, the viewport has just
  been scrolled to \<open>(0, 32700)\<close>, and the tile at column 0, row 127 is loaded.\<close>

definition scrolled_view :: ChamplainView where
  "scrolled_view =
    sample_view\<lparr>zoom_level := 8, anchor_zoom_level := 8,
      view_map := Some \<lparr>current_level =
        \<lparr>zl_zoom_level = 8, zl_width = 256, zl_height = 256,
         zl_tiles = [done_tile 8 0 127]\<rparr>\<rparr>,
      viewport_origin := \<lparr>fx = 0, fy = 32700\<rparr>,
      viewport_size := \<lparr>rx = 0, ry = 32600, rwidth = 100, rheight = 100\<rparr>\<rparr>"

text \<open>A view on which nothing was centred yet: it has no map.\<close>

definition premap_view :: ChamplainView where
  "premap_view = sample_view\<lparr>view_map := None\<rparr>"

text \<open>A view that holds a loaded tile in column 2, the column just past the two it shows,
  and at column 1, row 1 a tile whose load has failed.\<close>

definition failed_tile :: "int \<Rightarrow> int \<Rightarrow> int \<Rightarrow> ChamplainTile" where
  "failed_tile z i j = (done_tile z i j)\<lparr>tile_state := CHAMPLAIN_STATE_ERROR\<rparr>"

definition edge_view :: ChamplainView where
  "edge_view =
    sample_view\<lparr>view_map := Some \<lparr>current_level =
      \<lparr>zl_zoom_level = 3, zl_width = 8, zl_height = 8,
       zl_tiles = [done_tile 3 2 0, failed_tile 3 1 1]\<rparr>\<rparr>\<rparr>"

section \<open>Notions the properties are stated with\<close>

text \<open>Where a tile shows on the screen: the position \<^verbatim>\<open>view_position_tile\<close> gives its
  actor, seen from the viewport's origin.\<close>

definition tile_screen_position :: "ChamplainView \<Rightarrow> ChamplainTile \<Rightarrow> (real \<times> real) option" where
  "tile_screen_position v tile =
    map_option (\<lambda>a. (actor_x a - fx (viewport_origin v), actor_y a - fy (viewport_origin v)))
      (tile_actor (view_position_tile v tile))"

text \<open>At most one animation is active: a timeline runs only if it is the one of the view's
  go-to context.\<close>

definition one_animation :: "ChamplainView \<Rightarrow> bool" where
  "one_animation v =
    (\<forall>t < length (timelines v). tl_running (timelines v ! t) \<longrightarrow>
       (\<exists>ctx. goto_context v = Some ctx \<and> ctx_timeline ctx = t))"

text \<open>What recentring, scrolling and reconciliation leave alone: the map source, the zoom
  level and its bounds, the animation, the settings and the viewport's extent; and the view
  has a map afterwards.\<close>

definition same_frame :: "ChamplainView \<Rightarrow> ChamplainView \<Rightarrow> bool" where
  "same_frame v v' =
    (map_source v' = map_source v \<and> zoom_level v' = zoom_level v \<and>
     min_zoom_level v' = min_zoom_level v \<and> max_zoom_level v' = max_zoom_level v \<and>
     goto_context v' = goto_context v \<and> timelines v' = timelines v \<and>
     keep_center_on_resize v' = keep_center_on_resize v \<and>
     finger_scroll v' = finger_scroll v \<and>
     rwidth (viewport_size v') = rwidth (viewport_size v) \<and>
     rheight (viewport_size v') = rheight (viewport_size v) \<and>
     view_map v' \<noteq> None)"

text \<open>The cells the first pass keeps, both ends included, and what it tells the tile group
  when it takes a tile out.\<close>

definition in_range :: "int \<Rightarrow> int \<Rightarrow> int \<Rightarrow> int \<Rightarrow> ChamplainTile \<Rightarrow> bool" where
  "in_range x_first y_first x_count y_count tile =
    (x_first \<le> tile_x tile \<and> tile_x tile \<le> x_count \<and>
     y_first \<le> tile_y tile \<and> tile_y tile \<le> y_count)"

definition detached :: "int \<Rightarrow> ChamplainTile \<Rightarrow> effect list" where
  "detached zoom tile =
    (if tile_state tile = CHAMPLAIN_STATE_DONE \<and> tile_actor tile \<noteq> None
     then [GroupRemoveTileActor zoom (tile_x tile) (tile_y tile)] else [])"

text \<open>The view with another tile array in its current level, another aggregate state and
  another record of effects: all that a reconciliation changes.\<close>

definition with_tiles ::
    "ChamplainView \<Rightarrow> Map \<Rightarrow> ChamplainTile list \<Rightarrow> ChamplainState \<Rightarrow> effect list \<Rightarrow> ChamplainView" where
  "with_tiles v m ts s e =
    v\<lparr>view_map := Some (m\<lparr>current_level := (current_level m)\<lparr>zl_tiles := ts\<rparr>\<rparr>),
      state := s, effects := e\<rparr>"

text \<open>The tile the second pass records for a cell that has none, filled and positioned.\<close>

definition fresh_tile :: "ChamplainView \<Rightarrow> Map \<Rightarrow> int \<Rightarrow> int \<Rightarrow> ChamplainTile" where
  "fresh_tile v m i j =
    view_position_tile v
      (champlain_map_source_fill_tile (map_source v)
         (champlain_tile_new\<lparr>tile_x := i, tile_y := j,
            tile_zoom_level := zl_zoom_level (current_level m)\<rparr>))"

text \<open>The tile array after the second pass has dealt with cell \<open>(i, j)\<close>.\<close>

definition add_cell :: "ChamplainView \<Rightarrow> Map \<Rightarrow> int \<Rightarrow> int \<Rightarrow> ChamplainTile list \<Rightarrow> ChamplainTile list" where
  "add_cell v m i j ts = (if tile_exists ts i j then ts else ts @ [fresh_tile v m i j])"

text \<open>The state \<^verbatim>\<open>view_update_state\<close> computes from the tiles.\<close>

definition aggregate_state :: "ChamplainTile list \<Rightarrow> ChamplainState" where
  "aggregate_state ts =
    fold (\<lambda>tile s. if tile_state tile = CHAMPLAIN_STATE_LOADING
                   then CHAMPLAIN_STATE_LOADING else s) ts CHAMPLAIN_STATE_DONE"

text \<open>The tile array after both passes.\<close>

definition reconciled_tiles ::
    "ChamplainView \<Rightarrow> Map \<Rightarrow> int \<Rightarrow> int \<Rightarrow> int \<Rightarrow> int \<Rightarrow> ChamplainTile list" where
  "reconciled_tiles v m x_first y_first x_count y_count =
    fold (\<lambda>i. fold (add_cell v m i) [y_first..y_count - 1]) [x_first..x_count - 1]
      (filter (in_range x_first y_first x_count y_count) (zl_tiles (current_level m)))"

text \<open>What a centring, a scroll or a reconciliation leaves of the animation: the go-to
  context and the timelines.\<close>

definition same_animation :: "ChamplainView \<Rightarrow> ChamplainView \<Rightarrow> bool" where
  "same_animation v v' = (goto_context v' = goto_context v \<and> timelines v' = timelines v)"




section \<open>The position handler returns\<close>

text \<open>The handler calls the viewport back at most once: the second time round the centre is
  the same, and the anchor computed for it is the one already in place.\<close>

lemma rebased_anchor_frame:
  "rebased_anchor (v\<lparr>anchor := a, anchor_zoom_level := z\<rparr>) m x y = rebased_anchor v m x y"
  "rebased_anchor (v\<lparr>viewport_origin := p\<rparr>) m x y = rebased_anchor v m x y"
  by (simp_all add: rebased_anchor_def)

lemma view_update_anchor_idem:
  "view_update_anchor v x y = Inr v1 \<Longrightarrow> view_update_anchor v1 x y = Inr v1"
  by (auto simp: view_update_anchor_def rebased_anchor_frame Let_def split: if_splits option.splits)

lemma view_update_anchor_origin:
  "view_update_anchor (v\<lparr>viewport_origin := p\<rparr>) x y =
   map_sum id (\<lambda>v'. v'\<lparr>viewport_origin := p\<rparr>) (view_update_anchor v x y)"
  by (auto simp: view_update_anchor_def rebased_anchor_frame Let_def split: option.splits)

lemma view_update_anchor_viewport_size:
  "view_update_anchor v x y = Inr v1 \<Longrightarrow> viewport_size v1 = viewport_size v"
  by (auto simp: view_update_anchor_def Let_def split: if_splits option.splits)

lemma anchor_moves_once:
  assumes upd: "view_update_anchor v
                  (gint_of_real (fx (viewport_origin v) + fx (anchor v) +
                                 of_int (rwidth (viewport_size v)) / 2))
                  (gint_of_real (fy (viewport_origin v) + fy (anchor v) +
                                 of_int (rheight (viewport_size v)) / 2))
                = Inr v1"
  shows "\<not> anchor_moves (v1\<lparr>viewport_origin :=
            \<lparr>fx = fx (viewport_origin v) - (fx (anchor v1) - fx (anchor v)),
             fy = fy (viewport_origin v) - (fy (anchor v1) - fy (anchor v))\<rparr>\<rparr>)"
proof -
  have "view_update_anchor v1
          (gint_of_real (fx (viewport_origin v) + fx (anchor v) +
                         of_int (rwidth (viewport_size v)) / 2))
          (gint_of_real (fy (viewport_origin v) + fy (anchor v) +
                         of_int (rheight (viewport_size v)) / 2))
        = Inr v1"
    using upd by (rule view_update_anchor_idem)
  moreover have "viewport_size v1 = viewport_size v"
    using upd by (rule view_update_anchor_viewport_size)
  moreover have "fx (viewport_origin v) - (fx (anchor v1) - fx (anchor v)) + fx (anchor v1)
                 = fx (viewport_origin v) + fx (anchor v)"
    and "fy (viewport_origin v) - (fy (anchor v1) - fy (anchor v)) + fy (anchor v1)
                 = fy (viewport_origin v) + fy (anchor v)"
    by simp_all
  ultimately show ?thesis
    by (simp add: anchor_moves_def tidy_viewport_get_origin_def view_update_anchor_origin Let_def)
qed

termination viewport_pos_changed_cb
proof (relation "measure (\<lambda>s. case s of
          Inl v \<Rightarrow> (if anchor_moves v then 2 else 0)
        | Inr (v, x, y) \<Rightarrow>
            (if anchor_moves (v\<lparr>viewport_origin := \<lparr>fx = x, fy = y\<rparr>\<rparr>) then 3 else 1))")
  show "wf (measure (\<lambda>s. case s of
          Inl v \<Rightarrow> (if anchor_moves v then 2 else 0)
        | Inr (v, x, y) \<Rightarrow>
            (if anchor_moves (v\<lparr>viewport_origin := \<lparr>fx = x, fy = y\<rparr>\<rparr>) then 3 else (1::nat))))"
    by simp
next
  fix v :: ChamplainView and rect :: ChamplainFloatPoint and v1 :: ChamplainView
  assume rect: "rect = tidy_viewport_get_origin v"
    and ne: "\<not> (fx rect = real_of_int (rx (viewport_size v)) \<and>
                fy rect = real_of_int (ry (viewport_size v)))"
    and upd: "view_update_anchor v
         (gint_of_real (fx rect + fx (anchor v) + real_of_int (rwidth (viewport_size v)) / 2))
         (gint_of_real (fy rect + fy (anchor v) + real_of_int (rheight (viewport_size v)) / 2))
         = Inr v1"
    and mv: "fx (anchor v1) - fx (anchor v) \<noteq> 0"
  have a: "anchor_moves v"
    using rect ne upd mv by (simp add: anchor_moves_def Let_def)
  have b: "\<not> anchor_moves (v1\<lparr>viewport_origin :=
            \<lparr>fx = fx rect - (fx (anchor v1) - fx (anchor v)),
             fy = fy rect - (fy (anchor v1) - fy (anchor v))\<rparr>\<rparr>)"
    using anchor_moves_once [of v v1] upd rect by (simp add: tidy_viewport_get_origin_def)
  show "(Inr (v1, fx rect - (fx (anchor v1) - fx (anchor v)),
              fy rect - (fy (anchor v1) - fy (anchor v))), Inl v)
        \<in> measure (\<lambda>s. case s of
          Inl v \<Rightarrow> (if anchor_moves v then 2 else 0)
        | Inr (v, x, y) \<Rightarrow>
            (if anchor_moves (v\<lparr>viewport_origin := \<lparr>fx = x, fy = y\<rparr>\<rparr>) then 3 else 1))"
    using a b by simp
next
  fix v :: ChamplainView and x y :: real
  show "(Inl (v\<lparr>viewport_origin := \<lparr>fx = x, fy = y\<rparr>\<rparr>), Inr (v, x, y))
        \<in> measure (\<lambda>s. case s of
          Inl v \<Rightarrow> (if anchor_moves v then 2 else 0)
        | Inr (v, x, y) \<Rightarrow>
            (if anchor_moves (v\<lparr>viewport_origin := \<lparr>fx = x, fy = y\<rparr>\<rparr>) then 3 else 1))"
    by simp
qed

declare bit_length.simps [simp del]
declare viewport_pos_changed_cb.simps [simp del]
declare tidy_viewport_set_origin.simps [simp del]
declare remove_old_tiles.simps [simp del]
declare ensure_visible_loop.simps [simp del]

section \<open>Evaluation\<close>

lemmas model_defs =
  view_update_anchor_def rebased_anchor_def G_MAXINT16_def gint_of_real_def guint_less_def
  guint_of_int_def gint_of_guint_def
  champlain_zoom_level_get_width_def champlain_zoom_level_get_height_def
  champlain_zoom_level_tile_count_def champlain_zoom_level_get_nth_tile_def
  champlain_zoom_level_add_tile_def champlain_zoom_level_remove_tile_def
  champlain_zoom_level_get_zoom_level_def
  view_position_tile_def view_tiles_reposition_def view_update_state_def
  champlain_tile_new_def champlain_map_source_fill_tile_def visible_range_def
  load_tile_def load_new_tiles_def view_load_visible_tiles_def
  tidy_viewport_get_origin_def viewport_get_longitude_at_def viewport_get_current_longitude_def
  viewport_get_latitude_at_def viewport_get_current_latitude_def
  resize_viewport_def map_load_level_def map_zoom_to_def create_initial_map_def
  champlain_view_center_on_def champlain_view_set_size_def champlain_view_stop_go_to_def
  timeline_new_frame_def timeline_completed_def champlain_view_go_to_with_duration_def
  champlain_view_go_to_def clutter_timeline_emit_new_frame_def clutter_timeline_emit_completed_def
  ZOOM_LEVEL_OUT_OF_RANGE_def champlain_view_set_zoom_level_def view_set_zoom_level_at_def
  ensure_visible_target_def champlain_view_ensure_visible_def
  viewport_pos_changed_cb.simps tidy_viewport_set_origin.simps remove_old_tiles.simps
  ensure_visible_loop.simps upto.simps Let_def

lemmas sample_defs =
  sample_source_def done_tile_def failed_tile_def sample_view_def sample_context_def animating_view_def
  tall_source_def tall_view_def scrolled_view_def premap_view_def edge_view_def kinetic_view_def

section \<open>Every step returns\<close>

lemma same_frame_trans: "same_frame a b \<Longrightarrow> same_frame b c \<Longrightarrow> same_frame a c"
  by (simp add: same_frame_def)

lemma view_update_anchor_runs:
  assumes "view_map v \<noteq> None"
  shows "\<exists>v'. view_update_anchor v x y = Inr v' \<and> same_frame v v'"
  using assms by (auto simp: view_update_anchor_def same_frame_def Let_def)

lemma view_update_state_runs:
  assumes "view_map v \<noteq> None"
  shows "\<exists>v'. view_update_state v = Inr v' \<and> same_frame v v'"
  using assms by (auto simp: view_update_state_def same_frame_def Let_def)

lemma view_tiles_reposition_runs:
  assumes "view_map v \<noteq> None"
  shows "\<exists>v'. view_tiles_reposition v = Inr v' \<and> same_frame v v'"
  using assms by (auto simp: view_tiles_reposition_def same_frame_def)

lemma load_tile_runs:
  assumes "view_map v \<noteq> None"
  shows "\<exists>v'. load_tile i j v = Inr v' \<and> same_frame v v'"
proof (cases "view_map v")
  case None
  with assms show ?thesis by simp
next
  case (Some m)
  show ?thesis
  proof (cases "tile_exists (zl_tiles (current_level m)) i j")
    case True
    with Some show ?thesis by (simp add: load_tile_def same_frame_def)
  next
    case False
    let ?w = "v\<lparr>view_map := Some (m\<lparr>current_level :=
                 champlain_zoom_level_add_tile (current_level m)
                   (view_position_tile v (champlain_map_source_fill_tile (map_source v)
                      (champlain_tile_new\<lparr>tile_x := i, tile_y := j,
                         tile_zoom_level := champlain_zoom_level_get_zoom_level (current_level m)\<rparr>)))\<rparr>),
               effects := effects v @
                 [GroupAddTileActor (champlain_zoom_level_get_zoom_level (current_level m)) i j,
                  FillTile (champlain_zoom_level_get_zoom_level (current_level m)) i j]\<rparr>"
    have eq: "load_tile i j v = view_update_state ?w"
      using Some False by (simp add: load_tile_def Let_def)
    have "view_map ?w \<noteq> None" by simp
    from view_update_state_runs [OF this] obtain v' where
      r: "view_update_state ?w = Inr v'" and f: "same_frame ?w v'" by blast
    have "same_frame v ?w" by (simp add: same_frame_def)
    from this f have "same_frame v v'" by (rule same_frame_trans)
    with eq r show ?thesis by simp
  qed
qed

lemma load_row_runs:
  assumes "view_map v \<noteq> None"
  shows "\<exists>v'. fold (\<lambda>j r. case r of Inl e \<Rightarrow> Inl e | Inr u \<Rightarrow> load_tile i j u) js (Inr v) = Inr v'
            \<and> same_frame v v'"
  using assms
proof (induction js arbitrary: v)
  case Nil
  then show ?case by (simp add: same_frame_def)
next
  case (Cons j js)
  from load_tile_runs [OF Cons.prems] obtain u where
    u: "load_tile i j v = Inr u" and fu: "same_frame v u" by blast
  then have "view_map u \<noteq> None" by (simp add: same_frame_def)
  from Cons.IH [OF this] obtain v' where
    "fold (\<lambda>j r. case r of Inl e \<Rightarrow> Inl e | Inr u \<Rightarrow> load_tile i j u) js (Inr u) = Inr v'"
    and "same_frame u v'" by blast
  with u fu show ?case by (auto intro: same_frame_trans)
qed

lemma load_new_tiles_runs:
  assumes "view_map v \<noteq> None"
  shows "\<exists>v'. load_new_tiles x_first y_first x_count y_count v = Inr v' \<and> same_frame v v'"
proof -
  have "\<exists>v'. fold (\<lambda>i. fold (\<lambda>j r. case r of Inl e \<Rightarrow> Inl e | Inr u \<Rightarrow> load_tile i j u) js)
                is (Inr v) = Inr v' \<and> same_frame v v'" for "is" js
    using assms
  proof (induction "is" arbitrary: v)
    case Nil
    then show ?case by (simp add: same_frame_def)
  next
    case (Cons i "is")
    from load_row_runs [OF Cons.prems, of i js] obtain u where
      u: "fold (\<lambda>j r. case r of Inl e \<Rightarrow> Inl e | Inr u \<Rightarrow> load_tile i j u) js (Inr v) = Inr u"
      and fu: "same_frame v u" by blast
    then have "view_map u \<noteq> None" by (simp add: same_frame_def)
    from Cons.IH [OF this] obtain v' where
      "fold (\<lambda>i. fold (\<lambda>j r. case r of Inl e \<Rightarrow> Inl e | Inr u \<Rightarrow> load_tile i j u) js)
         is (Inr u) = Inr v'" and "same_frame u v'" by blast
    with u fu show ?case by (auto intro: same_frame_trans)
  qed
  then show ?thesis by (simp add: load_new_tiles_def)
qed

lemma view_load_visible_tiles_runs:
  assumes "view_map v \<noteq> None" and "get_tile_size (map_source v) \<noteq> 0"
  shows "\<exists>v'. view_load_visible_tiles v = Inr v' \<and> same_frame v v'"
proof -
  from assms obtain m where m: "view_map v = Some m" by auto
  obtain x_first y_first x_count y_count where
    r: "visible_range v (current_level m) = (x_first, y_first, x_count, y_count)"
    by (cases "visible_range v (current_level m)") auto
  obtain level effs where
    e: "remove_old_tiles x_first y_first x_count y_count 0 (current_level m) (effects v) = (level, effs)"
    by (cases "remove_old_tiles x_first y_first x_count y_count 0 (current_level m) (effects v)") auto
  let ?w = "v\<lparr>view_map := Some (m\<lparr>current_level := level\<rparr>), effects := effs\<rparr>"
  have "view_map ?w \<noteq> None" by simp
  from load_new_tiles_runs [OF this] obtain v2 where
    l: "load_new_tiles x_first y_first x_count y_count ?w = Inr v2" and f2: "same_frame ?w v2"
    by blast
  then have "view_map v2 \<noteq> None" by (simp add: same_frame_def)
  from view_update_state_runs [OF this] obtain v' where
    u: "view_update_state v2 = Inr v'" and f3: "same_frame v2 v'" by blast
  have "same_frame v ?w" by (simp add: same_frame_def)
  with f2 f3 have "same_frame v v'" by (blast intro: same_frame_trans)
  moreover have "view_load_visible_tiles v = Inr v'"
    using m assms(2) r e l u by (simp add: view_load_visible_tiles_def)
  ultimately show ?thesis by blast
qed

lemma same_frame_refl: "view_map v \<noteq> None \<Longrightarrow> same_frame v v"
  by (simp add: same_frame_def)

lemma viewport_runs:
  "view_map v \<noteq> None \<longrightarrow> get_tile_size (map_source v) \<noteq> 0 \<longrightarrow>
     (\<exists>v'. viewport_pos_changed_cb v = Inr v' \<and> same_frame v v')"
  "view_map w \<noteq> None \<longrightarrow> get_tile_size (map_source w) \<noteq> 0 \<longrightarrow>
     (\<exists>v'. tidy_viewport_set_origin w x y = Inr v' \<and> same_frame w v')"
proof (induction v and w x y rule: viewport_pos_changed_cb_tidy_viewport_set_origin.induct)
  case (1 v)
  show ?case
  proof (intro impI)
    assume m: "view_map v \<noteq> None" and sz: "get_tile_size (map_source v) \<noteq> 0"
    let ?rect = "tidy_viewport_get_origin v"
    let ?x = "gint_of_real (fx ?rect + fx (anchor v) + of_int (rwidth (viewport_size v)) / 2)"
    let ?y = "gint_of_real (fy ?rect + fy (anchor v) + of_int (rheight (viewport_size v)) / 2)"
    show "\<exists>v'. viewport_pos_changed_cb v = Inr v' \<and> same_frame v v'"
    proof (cases "fx ?rect = of_int (rx (viewport_size v)) \<and> fy ?rect = of_int (ry (viewport_size v))")
      case True
      then have "viewport_pos_changed_cb v = Inr v"
        by (simp add: viewport_pos_changed_cb.simps Let_def)
      with m show ?thesis by (auto intro: same_frame_refl)
    next
      case ne: False
      from view_update_anchor_runs [OF m, of ?x ?y] obtain v1 where
        u: "view_update_anchor v ?x ?y = Inr v1" and f1: "same_frame v v1" by blast
      show ?thesis
      proof (cases "fx (anchor v1) - fx (anchor v) \<noteq> 0")
        case mv: True
        from f1 m sz have "view_map v1 \<noteq> None" "get_tile_size (map_source v1) \<noteq> 0"
          by (simp_all add: same_frame_def)
        with "1.IH" [OF refl ne u mv] obtain v' where
          s: "tidy_viewport_set_origin v1 (fx ?rect - (fx (anchor v1) - fx (anchor v)))
                (fy ?rect - (fy (anchor v1) - fy (anchor v))) = Inr v'"
          and f2: "same_frame v1 v'" by blast
        have "viewport_pos_changed_cb v = Inr v'"
          using u mv s by (simp add: viewport_pos_changed_cb.simps Let_def ne)
        with f1 f2 show ?thesis by (blast intro: same_frame_trans)
      next
        case same: False
        let ?w = "v1\<lparr>viewport_size := (viewport_size v1)\<lparr>rx := gint_of_real (fx ?rect),
                                                        ry := gint_of_real (fy ?rect)\<rparr>\<rparr>"
        from f1 m sz have w: "view_map ?w \<noteq> None" "get_tile_size (map_source ?w) \<noteq> 0"
          and fw: "same_frame v ?w"
          by (simp_all add: same_frame_def)
        from view_load_visible_tiles_runs [OF w] obtain v2 where
          l: "view_load_visible_tiles ?w = Inr v2" and f2: "same_frame ?w v2" by blast
        then have "view_map v2 \<noteq> None" by (simp add: same_frame_def)
        from view_tiles_reposition_runs [OF this] obtain v3 where
          r: "view_tiles_reposition v2 = Inr v3" and f3: "same_frame v2 v3" by blast
        let ?v' = "v3\<lparr>longitude := viewport_get_current_longitude v3,
                       latitude := viewport_get_current_latitude v3,
                       effects := effects v3 @
                         [ObjectNotify ''longitude'', ObjectNotify ''latitude'']\<rparr>"
        have "same_frame v3 ?v'" using f3 by (simp add: same_frame_def)
        with fw f2 f3 have "same_frame v ?v'" by (blast intro: same_frame_trans)
        moreover have "viewport_pos_changed_cb v = Inr ?v'"
          using u same l r by (simp add: viewport_pos_changed_cb.simps Let_def ne)
        ultimately show ?thesis by blast
      qed
    qed
  qed
next
  case (2 w x y)
  show ?case
  proof (intro impI)
    assume m: "view_map w \<noteq> None" and sz: "get_tile_size (map_source w) \<noteq> 0"
    show "\<exists>v'. tidy_viewport_set_origin w x y = Inr v' \<and> same_frame w v'"
    proof (cases "fx (viewport_origin w) = x \<and> fy (viewport_origin w) = y")
      case True
      then have "tidy_viewport_set_origin w x y = Inr w"
        by (simp add: tidy_viewport_set_origin.simps)
      with m show ?thesis by (auto intro: same_frame_refl)
    next
      case ne: False
      let ?u = "w\<lparr>viewport_origin := \<lparr>fx = x, fy = y\<rparr>\<rparr>"
      from m sz have "view_map ?u \<noteq> None" "get_tile_size (map_source ?u) \<noteq> 0" by simp_all
      with "2.IH" [OF ne] obtain v' where
        c: "viewport_pos_changed_cb ?u = Inr v'" and f: "same_frame ?u v'" by blast
      have "same_frame w ?u" using m by (simp add: same_frame_def)
      from this f have "same_frame w v'" by (rule same_frame_trans)
      moreover have "tidy_viewport_set_origin w x y = Inr v'"
        using c by (simp add: tidy_viewport_set_origin.simps ne)
      ultimately show ?thesis by blast
    qed
  qed
qed

lemma create_initial_map_runs:
  "\<exists>v'. create_initial_map v = Inr v' \<and> same_frame v v'"
proof -
  let ?v1 = "v\<lparr>view_map := Some (map_load_level (map_source v) (zoom_level v)),
                effects := effects v @ [MapLayerAdd (zoom_level v)]\<rparr>"
  have "view_map ?v1 \<noteq> None" by simp
  from view_tiles_reposition_runs [OF this] obtain v2 where
    r: "view_tiles_reposition ?v1 = Inr v2" and f: "same_frame ?v1 v2" by blast
  then show ?thesis
    by (simp add: create_initial_map_def Let_def same_frame_def)
qed

lemma champlain_view_center_on_runs:
  assumes sz: "get_tile_size (map_source v) \<noteq> 0"
  shows "\<exists>v'. champlain_view_center_on v lat lon = Inr v' \<and> same_frame v v'"
proof -
  let ?v1 = "v\<lparr>longitude := lon, latitude := lat\<rparr>"
  have "\<exists>v2. (if view_map ?v1 = None then create_initial_map ?v1 else Inr ?v1) = Inr v2 \<and>
              same_frame ?v1 v2"
    using create_initial_map_runs [of ?v1] by (auto intro: same_frame_refl)
  then obtain v2 where
    c: "(if view_map ?v1 = None then create_initial_map ?v1 else Inr ?v1) = Inr v2"
    and f2: "same_frame ?v1 v2" by blast
  have f1: "same_frame v v2" using f2 by (simp add: same_frame_def)
  then have m2: "view_map v2 \<noteq> None" by (simp add: same_frame_def)
  let ?x = "get_x (map_source v2) (zoom_level v2) lon"
  let ?y = "get_y (map_source v2) (zoom_level v2) lat"
  from view_update_anchor_runs [OF m2, of ?x ?y] obtain v3 where
    u: "view_update_anchor v2 ?x ?y = Inr v3" and f3: "same_frame v2 v3" by blast
  from f1 f3 sz have m3: "view_map v3 \<noteq> None" and s3: "get_tile_size (map_source v3) \<noteq> 0"
    by (simp_all add: same_frame_def)
  let ?ox = "of_int (gint_of_real (of_int ?x - fx (anchor v3))) - of_int (rwidth (viewport_size v3)) / 2"
  let ?oy = "of_int (gint_of_real (of_int ?y - fy (anchor v3))) - of_int (rheight (viewport_size v3)) / 2"
  from viewport_runs(2) [of v3 ?ox ?oy] m3 s3 obtain v4 where
    o: "tidy_viewport_set_origin v3 ?ox ?oy = Inr v4" and f4: "same_frame v3 v4" by blast
  let ?w = "v4\<lparr>effects := effects v4 @ [ObjectNotify ''longitude'', ObjectNotify ''latitude'']\<rparr>"
  from f1 f3 f4 sz have w: "view_map ?w \<noteq> None" "get_tile_size (map_source ?w) \<noteq> 0"
    by (simp_all add: same_frame_def)
  from view_load_visible_tiles_runs [OF w] obtain v5 where
    l: "view_load_visible_tiles ?w = Inr v5" and f5: "same_frame ?w v5" by blast
  then have "view_map v5 \<noteq> None" by (simp add: same_frame_def)
  from view_tiles_reposition_runs [OF this] obtain v' where
    r: "view_tiles_reposition v5 = Inr v'" and f6: "same_frame v5 v'" by blast
  have "same_frame v4 ?w" using f4 by (simp add: same_frame_def)
  with f1 f3 f4 f5 f6 have "same_frame v v'" by (blast intro: same_frame_trans)
  moreover have "champlain_view_center_on v lat lon = Inr v'"
    using c u o l r by (simp add: champlain_view_center_on_def Let_def)
  ultimately show ?thesis by blast
qed

section \<open>The two passes of the reconciliation\<close>

lemma remove1_nth:
  "k < length xs \<Longrightarrow> xs ! k \<notin> set (take k xs) \<Longrightarrow>
   remove1 (xs ! k) xs = take k xs @ drop (Suc k) xs"
proof (induction xs arbitrary: k)
  case Nil
  then show ?case by simp
next
  case (Cons x xs)
  show ?case
  proof (cases k)
    case 0
    then show ?thesis by simp
  next
    case (Suc n)
    with Cons.prems have "n < length xs" "xs ! n \<notin> set (take n xs)" "xs ! n \<noteq> x"
      by auto
    with Cons.IH [of n] Suc show ?thesis by simp
  qed
qed

lemma remove_old_tiles_filter:
  assumes "\<forall>t \<in> set (take k (zl_tiles level)). in_range x_first y_first x_count y_count t"
  shows "remove_old_tiles x_first y_first x_count y_count k level effs =
    (level\<lparr>zl_tiles := take k (zl_tiles level) @
              filter (in_range x_first y_first x_count y_count) (drop k (zl_tiles level))\<rparr>,
     effs @ concat (map (detached (zl_zoom_level level))
              (filter (\<lambda>t. \<not> in_range x_first y_first x_count y_count t)
                 (drop k (zl_tiles level)))))"
  using assms
proof (induction x_first y_first x_count y_count k level effs rule: remove_old_tiles.induct)
  case (1 x_first y_first x_count y_count k level effs)
  let ?ts = "zl_tiles level"
  show ?case
  proof (cases "k < length ?ts")
    case False
    then show ?thesis
      by (simp add: remove_old_tiles.simps [of _ _ _ _ k level]
          champlain_zoom_level_tile_count_def)
  next
    case lt: True
    then have nth: "champlain_zoom_level_get_nth_tile level k = Some (?ts ! k)"
      by (simp add: champlain_zoom_level_get_nth_tile_def)
    have cnt: "k < champlain_zoom_level_tile_count level"
      using lt by (simp add: champlain_zoom_level_tile_count_def)
    have dr: "drop k ?ts = ?ts ! k # drop (Suc k) ?ts"
      using lt by (simp add: Cons_nth_drop_Suc)
    show ?thesis
    proof (cases "in_range x_first y_first x_count y_count (?ts ! k)")
      case inr: True
      then have c: "\<not> (tile_x (?ts ! k) < x_first \<or> x_count < tile_x (?ts ! k) \<or>
                      tile_y (?ts ! k) < y_first \<or> y_count < tile_y (?ts ! k))"
        by (auto simp: in_range_def)
      have pre: "\<forall>t \<in> set (take (k + 1) ?ts). in_range x_first y_first x_count y_count t"
        using "1.prems" inr lt by (auto simp: take_Suc_conv_app_nth)
      have "remove_old_tiles x_first y_first x_count y_count k level effs =
            remove_old_tiles x_first y_first x_count y_count (k + 1) level effs"
        using cnt nth c by (subst remove_old_tiles.simps) simp
      also note "1.IH"(3) [OF cnt nth c pre]
      finally show ?thesis
        using inr lt by (simp add: dr take_Suc_conv_app_nth)
    next
      case out: False
      then have c: "tile_x (?ts ! k) < x_first \<or> x_count < tile_x (?ts ! k) \<or>
                    tile_y (?ts ! k) < y_first \<or> y_count < tile_y (?ts ! k)"
        by (auto simp: in_range_def)
      have notin: "?ts ! k \<notin> set (take k ?ts)"
        using "1.prems" out by auto
      let ?level' = "champlain_zoom_level_remove_tile level (?ts ! k)"
      have ts': "zl_tiles ?level' = take k ?ts @ drop (Suc k) ?ts"
        using remove1_nth [OF lt notin] by (simp add: champlain_zoom_level_remove_tile_def)
      have tk: "take k (zl_tiles ?level') = take k ?ts"
        and dk: "drop k (zl_tiles ?level') = drop (Suc k) ?ts"
        using lt by (simp_all add: ts')
      have pre: "\<forall>t \<in> set (take k (zl_tiles ?level')). in_range x_first y_first x_count y_count t"
        using "1.prems" by (simp add: tk)
      have z: "zl_zoom_level ?level' = zl_zoom_level level"
        by (simp add: champlain_zoom_level_remove_tile_def)
      have lv: "?level'\<lparr>zl_tiles := xs\<rparr> = level\<lparr>zl_tiles := xs\<rparr>" for xs
        by (simp add: champlain_zoom_level_remove_tile_def)
      have "remove_old_tiles x_first y_first x_count y_count k level effs =
            remove_old_tiles x_first y_first x_count y_count k ?level'
              (effs @ (if tile_state (?ts ! k) = CHAMPLAIN_STATE_DONE \<and> tile_actor (?ts ! k) \<noteq> None
                       then [GroupRemoveTileActor (zl_zoom_level level) (tile_x (?ts ! k))
                               (tile_y (?ts ! k))] else []))"
        using cnt nth c by (subst remove_old_tiles.simps) simp
      also note "1.IH"(2) [OF cnt nth c pre]
      finally show ?thesis
        using out by (simp add: dr tk dk z lv detached_def)
    qed
  qed
qed

lemma tile_exists_iff: "tile_exists ts i j \<longleftrightarrow> (\<exists>t \<in> set ts. tile_x t = i \<and> tile_y t = j)"
  by (induction ts) auto

lemma fresh_tile_fields:
  "tile_x (fresh_tile v m i j) = i" "tile_y (fresh_tile v m i j) = j"
  "tile_state (fresh_tile v m i j) = CHAMPLAIN_STATE_LOADING"
  by (simp_all add: fresh_tile_def view_position_tile_def champlain_map_source_fill_tile_def
      champlain_tile_new_def split: option.splits)

lemma with_tiles_fields:
  "view_map (with_tiles v m ts s e) =
     Some (m\<lparr>current_level := (current_level m)\<lparr>zl_tiles := ts\<rparr>\<rparr>)"
  "map_source (with_tiles v m ts s e) = map_source v"
  "anchor (with_tiles v m ts s e) = anchor v"
  "viewport_size (with_tiles v m ts s e) = viewport_size v"
  "state (with_tiles v m ts s e) = s"
  "effects (with_tiles v m ts s e) = e"
  by (simp_all add: with_tiles_def)

lemma with_tiles_again:
  "with_tiles (with_tiles v m ts s e) (m\<lparr>current_level := (current_level m)\<lparr>zl_tiles := ts\<rparr>\<rparr>)
     ts' s' e' = with_tiles v m ts' s' e'"
  by (simp add: with_tiles_def)

lemma view_update_state_with_tiles:
  "\<exists>x. view_update_state (with_tiles v m ts s e) =
          Inr (with_tiles v m ts (aggregate_state ts) (e @ x))"
proof (cases "s = aggregate_state ts")
  case True
  then have "view_update_state (with_tiles v m ts s e) =
             Inr (with_tiles v m ts (aggregate_state ts) (e @ []))"
    by (simp add: view_update_state_def with_tiles_def aggregate_state_def Let_def)
  then show ?thesis by blast
next
  case False
  then have "view_update_state (with_tiles v m ts s e) =
             Inr (with_tiles v m ts (aggregate_state ts) (e @ [ObjectNotify ''state'']))"
    by (simp add: view_update_state_def with_tiles_def aggregate_state_def Let_def)
  then show ?thesis by blast
qed

lemma view_update_state_settled:
  "view_update_state (with_tiles v m ts (aggregate_state ts) e) =
     Inr (with_tiles v m ts (aggregate_state ts) e)"
  by (simp add: view_update_state_def with_tiles_def aggregate_state_def Let_def)

lemma view_position_tile_with_tiles:
  "view_position_tile (with_tiles v m ts s e) tile = view_position_tile v tile"
  by (simp add: with_tiles_def view_position_tile_def cong: option.case_cong)

lemma load_tile_with_tiles:
  "\<exists>s' x. load_tile i j (with_tiles v m ts s e) =
            Inr (with_tiles v m (add_cell v m i j ts) s' (e @ x))"
proof (cases "tile_exists ts i j")
  case True
  then have "load_tile i j (with_tiles v m ts s e) =
             Inr (with_tiles v m (add_cell v m i j ts) s (e @ []))"
    by (simp add: load_tile_def with_tiles_fields add_cell_def Let_def)
  then show ?thesis by blast
next
  case False
  let ?w = "with_tiles v m ts s e"
  let ?m = "m\<lparr>current_level := (current_level m)\<lparr>zl_tiles := ts\<rparr>\<rparr>"
  have wm: "view_map ?w = Some ?m" by (simp add: with_tiles_def)
  have nt: "view_position_tile ?w (champlain_map_source_fill_tile (map_source ?w)
              (champlain_tile_new\<lparr>tile_x := i, tile_y := j,
                 tile_zoom_level := champlain_zoom_level_get_zoom_level (current_level ?m)\<rparr>)) =
            fresh_tile v m i j"
    by (simp add: view_position_tile_with_tiles with_tiles_fields fresh_tile_def
        champlain_zoom_level_get_zoom_level_def)
  have add: "champlain_zoom_level_add_tile (current_level ?m) (fresh_tile v m i j) =
             (current_level m)\<lparr>zl_tiles := ts @ [fresh_tile v m i j]\<rparr>"
    using False
    by (auto simp: champlain_zoom_level_add_tile_def tile_exists_iff fresh_tile_fields)
  have arg: "?w\<lparr>view_map := Some (?m\<lparr>current_level :=
                 champlain_zoom_level_add_tile (current_level ?m)
                   (view_position_tile ?w (champlain_map_source_fill_tile (map_source ?w)
                      (champlain_tile_new\<lparr>tile_x := i, tile_y := j,
                         tile_zoom_level :=
                           champlain_zoom_level_get_zoom_level (current_level ?m)\<rparr>)))\<rparr>),
               effects := effects ?w @
                 [GroupAddTileActor (champlain_zoom_level_get_zoom_level (current_level ?m)) i j,
                  FillTile (champlain_zoom_level_get_zoom_level (current_level ?m)) i j]\<rparr> =
             with_tiles v m (ts @ [fresh_tile v m i j]) s
               (e @ [GroupAddTileActor (zl_zoom_level (current_level m)) i j,
                     FillTile (zl_zoom_level (current_level m)) i j])"
    unfolding nt add
    by (cases v) (simp add: with_tiles_def champlain_zoom_level_get_zoom_level_def)
  have "load_tile i j ?w =
        view_update_state
          (with_tiles v m (ts @ [fresh_tile v m i j]) s
             (e @ [GroupAddTileActor (zl_zoom_level (current_level m)) i j,
                   FillTile (zl_zoom_level (current_level m)) i j]))"
    unfolding arg [symmetric]
    using False by (simp add: load_tile_def wm Let_def)
  moreover from view_update_state_with_tiles obtain x where
    "view_update_state
       (with_tiles v m (ts @ [fresh_tile v m i j]) s
          (e @ [GroupAddTileActor (zl_zoom_level (current_level m)) i j,
                FillTile (zl_zoom_level (current_level m)) i j])) =
     Inr (with_tiles v m (ts @ [fresh_tile v m i j])
            (aggregate_state (ts @ [fresh_tile v m i j]))
            ((e @ [GroupAddTileActor (zl_zoom_level (current_level m)) i j,
                   FillTile (zl_zoom_level (current_level m)) i j]) @ x))"
    by blast
  ultimately have "load_tile i j ?w =
     Inr (with_tiles v m (add_cell v m i j ts)
            (aggregate_state (ts @ [fresh_tile v m i j]))
            (e @ ([GroupAddTileActor (zl_zoom_level (current_level m)) i j,
                   FillTile (zl_zoom_level (current_level m)) i j] @ x)))"
    using False by (simp add: add_cell_def)
  then show ?thesis by blast
qed

lemma load_row_with_tiles:
  "\<exists>s' x. fold (\<lambda>j r. case r of Inl x \<Rightarrow> Inl x | Inr u \<Rightarrow> load_tile i j u) js
              (Inr (with_tiles v m ts s e)) =
            Inr (with_tiles v m (fold (add_cell v m i) js ts) s' (e @ x))"
proof (induction js arbitrary: ts s e)
  case Nil
  have "with_tiles v m ts s e = with_tiles v m ts s (e @ [])" by simp
  then show ?case by (simp del: append_Nil2) blast
next
  case (Cons j js)
  from load_tile_with_tiles [of i j v m ts s e] obtain s1 x1 where
    a: "load_tile i j (with_tiles v m ts s e) =
        Inr (with_tiles v m (add_cell v m i j ts) s1 (e @ x1))"
    by blast
  from Cons.IH [of "add_cell v m i j ts" s1 "e @ x1"] obtain s2 x2 where
    "fold (\<lambda>j r. case r of Inl x \<Rightarrow> Inl x | Inr u \<Rightarrow> load_tile i j u) js
       (Inr (with_tiles v m (add_cell v m i j ts) s1 (e @ x1))) =
     Inr (with_tiles v m (fold (add_cell v m i) js (add_cell v m i j ts)) s2 ((e @ x1) @ x2))"
    by blast
  with a have "fold (\<lambda>j r. case r of Inl x \<Rightarrow> Inl x | Inr u \<Rightarrow> load_tile i j u) (j # js)
       (Inr (with_tiles v m ts s e)) =
     Inr (with_tiles v m (fold (add_cell v m i) (j # js) ts) s2 (e @ (x1 @ x2)))"
    by simp
  then show ?case by blast
qed

lemma load_new_tiles_with_tiles:
  "\<exists>s' x. load_new_tiles x_first y_first x_count y_count (with_tiles v m ts s e) =
            Inr (with_tiles v m
                   (fold (\<lambda>i. fold (add_cell v m i) [y_first..y_count - 1])
                      [x_first..x_count - 1] ts) s' (e @ x))"
proof -
  have "\<exists>s' x. fold (\<lambda>i. fold (\<lambda>j r. case r of Inl x \<Rightarrow> Inl x | Inr u \<Rightarrow> load_tile i j u) js)
                   is (Inr (with_tiles v m ts s e)) =
                 Inr (with_tiles v m (fold (\<lambda>i. fold (add_cell v m i) js) is ts) s' (e @ x))"
    for "is" js
  proof (induction "is" arbitrary: ts s e)
    case Nil
    have "with_tiles v m ts s e = with_tiles v m ts s (e @ [])" by simp
    then show ?case by (simp del: append_Nil2) blast
  next
    case (Cons i "is")
    from load_row_with_tiles [of i js v m ts s e] obtain s1 x1 where
      a: "fold (\<lambda>j r. case r of Inl x \<Rightarrow> Inl x | Inr u \<Rightarrow> load_tile i j u) js
            (Inr (with_tiles v m ts s e)) =
          Inr (with_tiles v m (fold (add_cell v m i) js ts) s1 (e @ x1))"
      by blast
    from Cons.IH [of "fold (add_cell v m i) js ts" s1 "e @ x1"] obtain s2 x2 where
      "fold (\<lambda>i. fold (\<lambda>j r. case r of Inl x \<Rightarrow> Inl x | Inr u \<Rightarrow> load_tile i j u) js) is
         (Inr (with_tiles v m (fold (add_cell v m i) js ts) s1 (e @ x1))) =
       Inr (with_tiles v m (fold (\<lambda>i. fold (add_cell v m i) js) is (fold (add_cell v m i) js ts))
              s2 ((e @ x1) @ x2))"
      by blast
    with a have
      "fold (\<lambda>i. fold (\<lambda>j r. case r of Inl x \<Rightarrow> Inl x | Inr u \<Rightarrow> load_tile i j u) js)
         (i # is) (Inr (with_tiles v m ts s e)) =
       Inr (with_tiles v m (fold (\<lambda>i. fold (add_cell v m i) js) (i # is) ts) s2 (e @ (x1 @ x2)))"
      by simp
    then show ?case by blast
  qed
  then show ?thesis by (simp add: load_new_tiles_def)
qed

subsection \<open>What the second pass adds\<close>

lemma add_cell_set: "set ts \<subseteq> set (add_cell v m i j ts)"
  by (auto simp: add_cell_def)

lemma add_cell_exists: "tile_exists (add_cell v m i j ts) i j"
  by (auto simp: add_cell_def tile_exists_iff fresh_tile_fields)

lemma add_cell_new:
  "t \<in> set (add_cell v m i j ts) \<Longrightarrow> t \<in> set ts \<or> t = fresh_tile v m i j"
  by (auto simp: add_cell_def split: if_splits)

lemma add_cell_same: "tile_exists ts i j \<Longrightarrow> add_cell v m i j ts = ts"
  by (simp add: add_cell_def)

lemma add_row_set: "set ts \<subseteq> set (fold (add_cell v m i) js ts)"
proof (induction js arbitrary: ts)
  case Nil
  then show ?case by simp
next
  case (Cons j js)
  from add_cell_set [of ts v m i j] Cons.IH [of "add_cell v m i j ts"]
  show ?case by auto
qed

lemma add_row_exists:
  "j \<in> set js \<Longrightarrow> tile_exists (fold (add_cell v m i) js ts) i j"
proof (induction js arbitrary: ts)
  case Nil
  then show ?case by simp
next
  case (Cons k js)
  show ?case
  proof (cases "j \<in> set js")
    case True
    with Cons.IH show ?thesis by simp
  next
    case False
    with Cons.prems have "k = j" by simp
    then have "tile_exists (add_cell v m i k ts) i j" by (simp add: add_cell_exists)
    with add_row_set [of "add_cell v m i k ts" v m i js] show ?thesis
      by (auto simp: tile_exists_iff)
  qed
qed

lemma add_row_new:
  "t \<in> set (fold (add_cell v m i) js ts) \<Longrightarrow>
   t \<in> set ts \<or> (\<exists>j \<in> set js. t = fresh_tile v m i j)"
proof (induction js arbitrary: ts)
  case Nil
  then show ?case by simp
next
  case (Cons k js)
  from Cons.IH [of "add_cell v m i k ts"] Cons.prems
  have "t \<in> set (add_cell v m i k ts) \<or> (\<exists>j \<in> set js. t = fresh_tile v m i j)" by simp
  with add_cell_new [of t v m i k ts] show ?case by auto
qed

lemma add_row_same:
  "\<forall>j \<in> set js. tile_exists ts i j \<Longrightarrow> fold (add_cell v m i) js ts = ts"
  by (induction js) (simp_all add: add_cell_same)

lemma add_grid_set: "set ts \<subseteq> set (fold (\<lambda>i. fold (add_cell v m i) js) is ts)"
proof (induction "is" arbitrary: ts)
  case Nil
  then show ?case by simp
next
  case (Cons i "is")
  from add_row_set [of ts v m i js] Cons.IH [of "fold (add_cell v m i) js ts"]
  show ?case by auto
qed

lemma add_grid_exists:
  "i \<in> set is \<Longrightarrow> j \<in> set js \<Longrightarrow>
   tile_exists (fold (\<lambda>i. fold (add_cell v m i) js) is ts) i j"
proof (induction "is" arbitrary: ts)
  case Nil
  then show ?case by simp
next
  case (Cons k "is")
  show ?case
  proof (cases "i \<in> set is")
    case True
    with Cons.IH Cons.prems show ?thesis by simp
  next
    case False
    with Cons.prems have "k = i" by simp
    with Cons.prems have "tile_exists (fold (add_cell v m k) js ts) i j"
      by (simp add: add_row_exists)
    with add_grid_set [of "fold (add_cell v m k) js ts" v m js "is"] show ?thesis
      by (auto simp: tile_exists_iff)
  qed
qed

lemma add_grid_new:
  "t \<in> set (fold (\<lambda>i. fold (add_cell v m i) js) is ts) \<Longrightarrow>
   t \<in> set ts \<or> (\<exists>i \<in> set is. \<exists>j \<in> set js. t = fresh_tile v m i j)"
proof (induction "is" arbitrary: ts)
  case Nil
  then show ?case by simp
next
  case (Cons k "is")
  from Cons.IH [of "fold (add_cell v m k) js ts"] Cons.prems
  have "t \<in> set (fold (add_cell v m k) js ts) \<or>
        (\<exists>i \<in> set is. \<exists>j \<in> set js. t = fresh_tile v m i j)" by simp
  with add_row_new [of t v m k js ts] show ?case by auto
qed

lemma add_grid_same:
  "\<forall>i \<in> set is. \<forall>j \<in> set js. tile_exists ts i j \<Longrightarrow>
   fold (\<lambda>i. fold (add_cell v m i) js) is ts = ts"
  by (induction "is") (simp_all add: add_row_same)

subsection \<open>The whole pass\<close>

lemma with_tiles_self:
  "view_map v = Some m \<Longrightarrow>
   with_tiles v m (zl_tiles (current_level m)) (state v) (effects v) = v"
  by (cases v, cases m) (simp add: with_tiles_def)

lemma visible_range_with_tiles:
  "visible_range (with_tiles v m ts s e) ((current_level m)\<lparr>zl_tiles := ts\<rparr>) =
   visible_range v (current_level m)"
  by (simp add: visible_range_def with_tiles_def champlain_zoom_level_get_width_def
      champlain_zoom_level_get_height_def Let_def)

lemma view_load_visible_tiles_result:
  assumes m: "view_map v = Some m"
    and sz: "get_tile_size (map_source v) \<noteq> 0"
    and r: "visible_range v (current_level m) = (x_first, y_first, x_count, y_count)"
  shows "\<exists>x. view_load_visible_tiles v =
           Inr (with_tiles v m (reconciled_tiles v m x_first y_first x_count y_count)
                  (aggregate_state (reconciled_tiles v m x_first y_first x_count y_count))
                  (effects v @
                   concat (map (detached (zl_zoom_level (current_level m)))
                     (filter (\<lambda>t. \<not> in_range x_first y_first x_count y_count t)
                        (zl_tiles (current_level m)))) @ x))"
proof -
  let ?old = "zl_tiles (current_level m)"
  let ?kept = "filter (in_range x_first y_first x_count y_count) ?old"
  let ?e1 = "effects v @ concat (map (detached (zl_zoom_level (current_level m)))
               (filter (\<lambda>t. \<not> in_range x_first y_first x_count y_count t) ?old))"
  have ev: "remove_old_tiles x_first y_first x_count y_count 0 (current_level m) (effects v) =
            ((current_level m)\<lparr>zl_tiles := ?kept\<rparr>, ?e1)"
    using remove_old_tiles_filter [of 0 "current_level m" x_first y_first x_count y_count "effects v"]
    by simp
  have w: "v\<lparr>view_map := Some (m\<lparr>current_level := (current_level m)\<lparr>zl_tiles := ?kept\<rparr>\<rparr>),
            effects := ?e1\<rparr> = with_tiles v m ?kept (state v) ?e1"
    by (cases v) (simp add: with_tiles_def)
  from load_new_tiles_with_tiles [of x_first y_first x_count y_count v m ?kept "state v" ?e1]
  obtain s2 x2 where
    l: "load_new_tiles x_first y_first x_count y_count (with_tiles v m ?kept (state v) ?e1) =
        Inr (with_tiles v m (reconciled_tiles v m x_first y_first x_count y_count) s2 (?e1 @ x2))"
    by (auto simp: reconciled_tiles_def)
  from view_update_state_with_tiles
    [of v m "reconciled_tiles v m x_first y_first x_count y_count" s2 "?e1 @ x2"]
  obtain x3 where
    u: "view_update_state
          (with_tiles v m (reconciled_tiles v m x_first y_first x_count y_count) s2 (?e1 @ x2)) =
        Inr (with_tiles v m (reconciled_tiles v m x_first y_first x_count y_count)
               (aggregate_state (reconciled_tiles v m x_first y_first x_count y_count))
               ((?e1 @ x2) @ x3))"
    by blast
  have "view_load_visible_tiles v =
        Inr (with_tiles v m (reconciled_tiles v m x_first y_first x_count y_count)
               (aggregate_state (reconciled_tiles v m x_first y_first x_count y_count))
               (?e1 @ (x2 @ x3)))"
    using m sz r ev l u by (simp add: view_load_visible_tiles_def w)
  then show ?thesis by (intro exI [of _ "x2 @ x3"]) simp
qed

lemma reconciled_tiles_in_range:
  assumes "t \<in> set (reconciled_tiles v m x_first y_first x_count y_count)"
  shows "in_range x_first y_first x_count y_count t"
proof -
  from add_grid_new [OF assms [unfolded reconciled_tiles_def]]
  show ?thesis
    by (auto simp: in_range_def fresh_tile_fields)
qed

lemma reconciled_tiles_cover:
  assumes "x_first \<le> i" "i < x_count" "y_first \<le> j" "j < y_count"
  shows "tile_exists (reconciled_tiles v m x_first y_first x_count y_count) i j"
  unfolding reconciled_tiles_def
  using assms by (intro add_grid_exists) auto

lemma load_tile_nothing:
  "view_map w = Some mm \<Longrightarrow> tile_exists (zl_tiles (current_level mm)) i j \<Longrightarrow>
   load_tile i j w = Inr w"
  by (simp add: load_tile_def Let_def)

lemma load_row_nothing:
  "view_map w = Some mm \<Longrightarrow> \<forall>j \<in> set js. tile_exists (zl_tiles (current_level mm)) i j \<Longrightarrow>
   fold (\<lambda>j r. case r of Inl x \<Rightarrow> Inl x | Inr u \<Rightarrow> load_tile i j u) js (Inr w) = Inr w"
  by (induction js) (simp_all add: load_tile_nothing)

lemma load_new_tiles_nothing:
  assumes "view_map w = Some mm"
    and "\<forall>i. \<forall>j. x_first \<le> i \<and> i < x_count \<and> y_first \<le> j \<and> j < y_count \<longrightarrow>
           tile_exists (zl_tiles (current_level mm)) i j"
  shows "load_new_tiles x_first y_first x_count y_count w = Inr w"
proof -
  have "fold (\<lambda>i. fold (\<lambda>j r. case r of Inl x \<Rightarrow> Inl x | Inr u \<Rightarrow> load_tile i j u) js) is
          (Inr w) = Inr w"
    if "\<forall>i \<in> set is. \<forall>j \<in> set js. tile_exists (zl_tiles (current_level mm)) i j"
    for "is" js
    using that assms(1) by (induction "is") (simp_all add: load_row_nothing)
  then show ?thesis
    using assms(2) by (simp add: load_new_tiles_def)
qed

section \<open>What the position handler and a centring preserve\<close>

text \<open>A relation between a view and a later one holds across the position handler, and
  across a change of the viewport's origin, if it holds across no change at all, can be
  extended backwards over an anchor update and over a change of the origin, and holds across
  the handler's last part: anchor update, reconciliation, repositioning and the new centre.\<close>

lemma viewport_steps:
  assumes stay: "\<And>v. R v v"
    and anchor: "\<And>v x y v1 v'. view_update_anchor v x y = Inr v1 \<Longrightarrow> R v1 v' \<Longrightarrow> R v v'"
    and origin: "\<And>v p v'. R (v\<lparr>viewport_origin := p\<rparr>) v' \<Longrightarrow> R v v'"
    and final: "\<And>v x y v1 v2 v3 a b.
      view_update_anchor v x y = Inr v1 \<Longrightarrow>
      view_load_visible_tiles (v1\<lparr>viewport_size := (viewport_size v1)\<lparr>rx := a, ry := b\<rparr>\<rparr>) = Inr v2 \<Longrightarrow>
      view_tiles_reposition v2 = Inr v3 \<Longrightarrow>
      R v (v3\<lparr>longitude := viewport_get_current_longitude v3,
              latitude := viewport_get_current_latitude v3,
              effects := effects v3 @ [ObjectNotify ''longitude'', ObjectNotify ''latitude'']\<rparr>)"
  shows "\<forall>v'. viewport_pos_changed_cb v = Inr v' \<longrightarrow> R v v'"
    and "\<forall>v'. tidy_viewport_set_origin w x y = Inr v' \<longrightarrow> R w v'"
proof (induction v and w x y rule: viewport_pos_changed_cb_tidy_viewport_set_origin.induct)
  case (1 v)
  let ?rect = "tidy_viewport_get_origin v"
  let ?x = "gint_of_real (fx ?rect + fx (anchor v) + of_int (rwidth (viewport_size v)) / 2)"
  let ?y = "gint_of_real (fy ?rect + fy (anchor v) + of_int (rheight (viewport_size v)) / 2)"
  show ?case
  proof (intro allI impI)
    fix v'
    assume run: "viewport_pos_changed_cb v = Inr v'"
    show "R v v'"
    proof (cases "fx ?rect = of_int (rx (viewport_size v)) \<and> fy ?rect = of_int (ry (viewport_size v))")
      case True
      with run have "v' = v" by (simp add: viewport_pos_changed_cb.simps Let_def)
      then show ?thesis by (simp add: stay)
    next
      case ne: False
      from run obtain v1 where u: "view_update_anchor v ?x ?y = Inr v1"
        by (cases "view_update_anchor v ?x ?y")
           (simp_all add: viewport_pos_changed_cb.simps [of v] Let_def ne)
      show ?thesis
      proof (cases "fx (anchor v1) - fx (anchor v) \<noteq> 0")
        case mv: True
        from run u mv have
          "tidy_viewport_set_origin v1 (fx ?rect - (fx (anchor v1) - fx (anchor v)))
             (fy ?rect - (fy (anchor v1) - fy (anchor v))) = Inr v'"
          by (simp add: viewport_pos_changed_cb.simps [of v] Let_def ne)
        with "1.IH" [OF refl ne u mv] have "R v1 v'" by blast
        with u show ?thesis by (rule anchor)
      next
        case same: False
        let ?w = "v1\<lparr>viewport_size := (viewport_size v1)\<lparr>rx := gint_of_real (fx ?rect),
                                                        ry := gint_of_real (fy ?rect)\<rparr>\<rparr>"
        from run u same obtain v2 where l: "view_load_visible_tiles ?w = Inr v2"
          by (cases "view_load_visible_tiles ?w")
             (simp_all add: viewport_pos_changed_cb.simps [of v] Let_def ne)
        from run u same l obtain v3 where r: "view_tiles_reposition v2 = Inr v3"
          by (cases "view_tiles_reposition v2")
             (simp_all add: viewport_pos_changed_cb.simps [of v] Let_def ne)
        from run u same l r have
          "v' = v3\<lparr>longitude := viewport_get_current_longitude v3,
                   latitude := viewport_get_current_latitude v3,
                   effects := effects v3 @ [ObjectNotify ''longitude'', ObjectNotify ''latitude'']\<rparr>"
          by (simp add: viewport_pos_changed_cb.simps [of v] Let_def ne)
        with final [OF u l r] show ?thesis by simp
      qed
    qed
  qed
next
  case (2 w x y)
  show ?case
  proof (intro allI impI)
    fix v'
    assume run: "tidy_viewport_set_origin w x y = Inr v'"
    show "R w v'"
    proof (cases "fx (viewport_origin w) = x \<and> fy (viewport_origin w) = y")
      case True
      with run have "v' = w" by (simp add: tidy_viewport_set_origin.simps)
      then show ?thesis by (simp add: stay)
    next
      case ne: False
      with run have "viewport_pos_changed_cb (w\<lparr>viewport_origin := \<lparr>fx = x, fy = y\<rparr>\<rparr>) = Inr v'"
        by (simp add: tidy_viewport_set_origin.simps [of w] ne)
      with "2.IH" [OF ne] have "R (w\<lparr>viewport_origin := \<lparr>fx = x, fy = y\<rparr>\<rparr>) v'" by blast
      then show ?thesis by (rule origin)
    qed
  qed
qed

subsection \<open>The animation\<close>

lemma view_update_anchor_animation:
  "view_update_anchor v x y = Inr v' \<Longrightarrow> same_animation v v'"
  by (auto simp: view_update_anchor_def same_animation_def Let_def split: option.splits if_splits)

lemma view_load_visible_tiles_animation:
  assumes "view_load_visible_tiles v = Inr v'"
  shows "same_animation v v'"
proof -
  from assms have "view_map v \<noteq> None" "get_tile_size (map_source v) \<noteq> 0"
    by (auto simp: view_load_visible_tiles_def split: option.splits if_splits)
  from view_load_visible_tiles_runs [OF this] assms show ?thesis
    by (auto simp: same_frame_def same_animation_def)
qed

lemma view_tiles_reposition_animation:
  "view_tiles_reposition v = Inr v' \<Longrightarrow> same_animation v v'"
  by (auto simp: view_tiles_reposition_def same_animation_def split: option.splits)

lemma viewport_animation:
  "viewport_pos_changed_cb v = Inr v' \<Longrightarrow> same_animation v v'"
  "tidy_viewport_set_origin w x y = Inr v' \<Longrightarrow> same_animation w v'"
proof -
  have a: "\<forall>v'. viewport_pos_changed_cb v = Inr v' \<longrightarrow> same_animation v v'"
    and b: "\<forall>v'. tidy_viewport_set_origin w x y = Inr v' \<longrightarrow> same_animation w v'"
  proof (induction rule: viewport_steps [where R = same_animation])
    case (1 v)
    show ?case by (simp add: same_animation_def)
  next
    case (2 v x y v1 v')
    from view_update_anchor_animation [OF 2(1)] 2(2) show ?case
      by (simp add: same_animation_def)
  next
    case (3 v p v')
    then show ?case by (simp add: same_animation_def)
  next
    case (4 v x y v1 v2 v3 a b)
    from view_update_anchor_animation [OF 4(1)] view_load_visible_tiles_animation [OF 4(2)]
      view_tiles_reposition_animation [OF 4(3)]
    show ?case by (simp add: same_animation_def)
  qed
  show "viewport_pos_changed_cb v = Inr v' \<Longrightarrow> same_animation v v'" using a by blast
  show "tidy_viewport_set_origin w x y = Inr v' \<Longrightarrow> same_animation w v'" using b by blast
qed


lemma champlain_view_center_on_steps:
  assumes "champlain_view_center_on v lat lon = Inr v'"
  obtains v2 v3 v4 v5 where
    "(if view_map v = None then create_initial_map (v\<lparr>longitude := lon, latitude := lat\<rparr>)
      else Inr (v\<lparr>longitude := lon, latitude := lat\<rparr>)) = Inr v2"
    "view_update_anchor v2 (get_x (map_source v2) (zoom_level v2) lon)
       (get_y (map_source v2) (zoom_level v2) lat) = Inr v3"
    "tidy_viewport_set_origin v3
       (of_int (gint_of_real (of_int (get_x (map_source v2) (zoom_level v2) lon) - fx (anchor v3)))
          - of_int (rwidth (viewport_size v3)) / 2)
       (of_int (gint_of_real (of_int (get_y (map_source v2) (zoom_level v2) lat) - fy (anchor v3)))
          - of_int (rheight (viewport_size v3)) / 2) = Inr v4"
    "view_load_visible_tiles
       (v4\<lparr>effects := effects v4 @ [ObjectNotify ''longitude'', ObjectNotify ''latitude'']\<rparr>) = Inr v5"
    "view_tiles_reposition v5 = Inr v'"
  using assms
  by (auto simp: champlain_view_center_on_def Let_def split: sum.splits if_splits)

lemma create_initial_map_animation:
  "create_initial_map v = Inr v' \<Longrightarrow> same_animation v v'"
  by (auto simp: create_initial_map_def view_tiles_reposition_def same_animation_def Let_def
      split: sum.splits)

lemma same_animation_trans:
  "same_animation a b \<Longrightarrow> same_animation b c \<Longrightarrow> same_animation a c"
  by (simp add: same_animation_def)

lemma champlain_view_center_on_animation:
  assumes "champlain_view_center_on v lat lon = Inr v'"
  shows "same_animation v v'"
proof -
  from assms obtain v2 v3 v4 v5 where
    s2: "(if view_map v = None then create_initial_map (v\<lparr>longitude := lon, latitude := lat\<rparr>)
          else Inr (v\<lparr>longitude := lon, latitude := lat\<rparr>)) = Inr v2"
    and s3: "view_update_anchor v2 (get_x (map_source v2) (zoom_level v2) lon)
       (get_y (map_source v2) (zoom_level v2) lat) = Inr v3"
    and s4: "tidy_viewport_set_origin v3
       (of_int (gint_of_real (of_int (get_x (map_source v2) (zoom_level v2) lon) - fx (anchor v3)))
          - of_int (rwidth (viewport_size v3)) / 2)
       (of_int (gint_of_real (of_int (get_y (map_source v2) (zoom_level v2) lat) - fy (anchor v3)))
          - of_int (rheight (viewport_size v3)) / 2) = Inr v4"
    and s5: "view_load_visible_tiles
       (v4\<lparr>effects := effects v4 @ [ObjectNotify ''longitude'', ObjectNotify ''latitude'']\<rparr>) = Inr v5"
    and s6: "view_tiles_reposition v5 = Inr v'"
    by (rule champlain_view_center_on_steps)
  from s2 have "same_animation v v2"
    using create_initial_map_animation [of "v\<lparr>longitude := lon, latitude := lat\<rparr>" v2]
    by (auto simp: same_animation_def split: if_splits)
  moreover note view_update_anchor_animation [OF s3] viewport_animation(2) [OF s4]
  moreover from view_load_visible_tiles_animation [OF s5] have "same_animation v4 v5"
    by (simp add: same_animation_def)
  moreover note view_tiles_reposition_animation [OF s6]
  ultimately show ?thesis by (blast intro: same_animation_trans)
qed

subsection \<open>At most one animation\<close>

lemma one_animation_same:
  "same_animation v v' \<Longrightarrow> one_animation v \<Longrightarrow> one_animation v'"
  by (simp add: same_animation_def one_animation_def)

lemma one_animation_fresh:
  "timelines v = [] \<Longrightarrow> one_animation v"
  by (simp add: one_animation_def)

lemma champlain_view_stop_go_to_quiet:
  assumes "one_animation v" and "t < length (timelines v)"
  shows "\<not> tl_running (timelines (champlain_view_stop_go_to v) ! t)"
proof (cases "goto_context v")
  case None
  with assms show ?thesis
    by (auto simp: one_animation_def champlain_view_stop_go_to_def)
next
  case (Some ctx)
  show ?thesis
  proof (cases "ctx_timeline ctx = t")
    case True
    with Some assms(2) show ?thesis
      by (simp add: champlain_view_stop_go_to_def)
  next
    case False
    with Some assms show ?thesis
      by (auto simp: one_animation_def champlain_view_stop_go_to_def)
  qed
qed

lemma champlain_view_stop_go_to_fields:
  "length (timelines (champlain_view_stop_go_to v)) = length (timelines v)"
  "goto_context (champlain_view_stop_go_to v) = None"
  by (simp_all add: champlain_view_stop_go_to_def split: option.splits)

lemma one_animation_stop:
  assumes "one_animation v"
  shows "one_animation (champlain_view_stop_go_to v)"
  using champlain_view_stop_go_to_quiet [OF assms]
  by (simp add: one_animation_def champlain_view_stop_go_to_fields)

lemma one_animation_go_to_with_duration:
  assumes "one_animation v" and "champlain_view_go_to_with_duration v lat lon duration = Inr v'"
  shows "one_animation v'"
proof (cases "duration = 0")
  case True
  with assms(2) have "champlain_view_center_on v lat lon = Inr v'"
    by (simp add: champlain_view_go_to_with_duration_def)
  from champlain_view_center_on_animation [OF this] assms(1) show ?thesis
    by (rule one_animation_same)
next
  case False
  let ?v1 = "champlain_view_stop_go_to v"
  from False assms(2) have v': "goto_context v' =
      Some \<lparr>ctx_timeline = length (timelines ?v1), to_latitude = lat, to_longitude = lon,
            from_latitude = latitude ?v1, from_longitude = longitude ?v1\<rparr>"
    "timelines v' = timelines ?v1 @
       [\<lparr>tl_duration = duration, tl_running = True,
         tl_data = \<lparr>ctx_timeline = length (timelines ?v1), to_latitude = lat, to_longitude = lon,
            from_latitude = latitude ?v1, from_longitude = longitude ?v1\<rparr>\<rparr>]"
    by (auto simp: champlain_view_go_to_with_duration_def Let_def)
  show ?thesis
    using champlain_view_stop_go_to_quiet [OF assms(1)]
    by (auto simp: one_animation_def v' nth_append champlain_view_stop_go_to_fields)
qed

lemma one_animation_set_zoom_level:
  assumes "one_animation v" and "champlain_view_set_zoom_level v zoom = Inr v'"
  shows "one_animation v'"
proof -
  let ?v1 = "champlain_view_stop_go_to v"
  have one1: "one_animation ?v1" using assms(1) by (rule one_animation_stop)
  show ?thesis
  proof (cases "view_map v = None \<or> zoom = zoom_level v \<or> ZOOM_LEVEL_OUT_OF_RANGE v zoom")
    case True
    then have "champlain_view_set_zoom_level v zoom = Inr v"
      by (auto simp: champlain_view_set_zoom_level_def)
    with assms show ?thesis by simp
  next
    case False
    from False assms(2) obtain m where m: "view_map ?v1 = Some m"
      by (cases "view_map ?v1") (auto simp: champlain_view_set_zoom_level_def Let_def)
    show ?thesis
    proof (cases "map_zoom_to m (map_source ?v1) zoom")
      case None
      with False assms(2) m have "v' = ?v1"
        by (auto simp: champlain_view_set_zoom_level_def Let_def)
      with one1 show ?thesis by simp
    next
      case (Some m')
      let ?v4 = "(resize_viewport (?v1\<lparr>view_map := Some m', zoom_level := zoom\<rparr>))
                   \<lparr>effects := effects (resize_viewport (?v1\<lparr>view_map := Some m', zoom_level := zoom\<rparr>)) @
                      [MapLayerRemove (zl_zoom_level (current_level m)),
                       MapLayerAdd (zl_zoom_level (current_level m'))]\<rparr>"
      from False assms(2) m Some obtain v5 where
        c: "champlain_view_center_on ?v4 (latitude ?v1) (longitude ?v1) = Inr v5"
        and v': "v' = v5\<lparr>effects := effects v5 @ [ObjectNotify ''zoom-level'']\<rparr>"
        by (cases "champlain_view_center_on ?v4 (latitude ?v1) (longitude ?v1)")
           (auto simp: champlain_view_set_zoom_level_def Let_def)
      have "same_animation ?v1 ?v4" by (simp add: same_animation_def resize_viewport_def)
      moreover note champlain_view_center_on_animation [OF c]
      moreover have "same_animation v5 v'" by (simp add: v' same_animation_def)
      ultimately have "same_animation ?v1 v'" by (blast intro: same_animation_trans)
      from this one1 show ?thesis by (rule one_animation_same)
    qed
  qed
qed


lemma one_animation_set_zoom_level_at:
  assumes "one_animation v" and "view_set_zoom_level_at v zoom x y = Inr (ok, v')"
  shows "one_animation v'"
proof -
  let ?v1 = "champlain_view_stop_go_to v"
  have one1: "one_animation ?v1" using assms(1) by (rule one_animation_stop)
  show ?thesis
  proof (cases "zoom = zoom_level v \<or> ZOOM_LEVEL_OUT_OF_RANGE v zoom")
    case True
    then have "view_set_zoom_level_at v zoom x y = Inr (False, v)"
      by (auto simp: view_set_zoom_level_at_def)
    with assms show ?thesis by simp
  next
    case False
    from False assms(2) obtain m where m: "view_map ?v1 = Some m"
      by (cases "view_map ?v1") (auto simp: view_set_zoom_level_at_def Let_def)
    show ?thesis
    proof (cases "map_zoom_to m (map_source ?v1) zoom")
      case None
      with False assms(2) m have "v' = ?v1"
        by (auto simp: view_set_zoom_level_at_def Let_def)
      with one1 show ?thesis by simp
    next
      case (Some m')
      let ?v4 = "(resize_viewport (?v1\<lparr>view_map := Some m', zoom_level := zoom\<rparr>))
                   \<lparr>effects := effects (resize_viewport (?v1\<lparr>view_map := Some m', zoom_level := zoom\<rparr>)) @
                      [MapLayerRemove (zl_zoom_level (current_level m)),
                       MapLayerAdd (zl_zoom_level (current_level m'))]\<rparr>"
      from False assms(2) m Some obtain lat2 lon2 v5 where
        c: "champlain_view_center_on ?v4 lat2 lon2 = Inr v5"
        and v': "v' = v5\<lparr>effects := effects v5 @ [ObjectNotify ''zoom-level'']\<rparr>"
        by (auto simp: view_set_zoom_level_at_def Let_def split: sum.splits)
      have "same_animation ?v1 ?v4" by (simp add: same_animation_def resize_viewport_def)
      moreover note champlain_view_center_on_animation [OF c]
      moreover have "same_animation v5 v'" by (simp add: v' same_animation_def)
      ultimately have "same_animation ?v1 v'" by (blast intro: same_animation_trans)
      from this one1 show ?thesis by (rule one_animation_same)
    qed
  qed
qed

lemma one_animation_go_to:
  "one_animation v \<Longrightarrow> champlain_view_go_to v lat lon = Inr v' \<Longrightarrow> one_animation v'"
  unfolding champlain_view_go_to_def by (rule one_animation_go_to_with_duration)

lemma one_animation_center_on:
  "one_animation v \<Longrightarrow> champlain_view_center_on v lat lon = Inr v' \<Longrightarrow> one_animation v'"
  using champlain_view_center_on_animation one_animation_same by blast

lemma one_animation_ensure_visible:
  assumes "one_animation v"
    and "champlain_view_ensure_visible v lat1 lon1 lat2 lon2 animate = Inr v'"
  shows "one_animation v'"
proof -
  obtain zoom lat lon where t: "ensure_visible_target v lat1 lon1 lat2 lon2 = (zoom, lat, lon)"
    by (cases "ensure_visible_target v lat1 lon1 lat2 lon2") auto
  from assms(2) t obtain v1 where z: "champlain_view_set_zoom_level v zoom = Inr v1"
    and g: "(if animate then champlain_view_go_to v1 lat lon
             else champlain_view_center_on v1 lat lon) = Inr v'"
    by (cases "champlain_view_set_zoom_level v zoom")
       (auto simp: champlain_view_ensure_visible_def)
  from assms(1) z have "one_animation v1" by (rule one_animation_set_zoom_level)
  with g show ?thesis
    by (auto split: if_splits intro: one_animation_go_to one_animation_center_on)
qed

lemma one_animation_set_size:
  assumes "one_animation v" and "champlain_view_set_size v w h = Inr v'"
  shows "one_animation v'"
proof -
  let ?v2 = "resize_viewport (v\<lparr>viewport_size :=
               (viewport_size v)\<lparr>rwidth := gint_of_guint w, rheight := gint_of_guint h\<rparr>\<rparr>)"
  have "same_animation v ?v2" by (simp add: same_animation_def resize_viewport_def)
  with assms(1) have one2: "one_animation ?v2" by (rule one_animation_same [rotated])
  from assms(2) have "champlain_view_center_on ?v2 (latitude ?v2) (longitude ?v2) = Inr v' \<or>
                      view_load_visible_tiles ?v2 = Inr v'"
    by (auto simp: champlain_view_set_size_def Let_def split: if_splits)
  with one2 show ?thesis
    using view_load_visible_tiles_animation one_animation_same one_animation_center_on by blast
qed

lemma one_animation_new_frame:
  assumes "one_animation v" and "clutter_timeline_emit_new_frame v t alpha = Inr v'"
  shows "one_animation v'"
  using assms
  by (auto simp: clutter_timeline_emit_new_frame_def timeline_new_frame_def Let_def
      split: if_splits intro: one_animation_center_on)

lemma one_animation_completed:
  "one_animation v \<Longrightarrow> one_animation (clutter_timeline_emit_completed v t)"
  by (simp add: clutter_timeline_emit_completed_def timeline_completed_def one_animation_stop)

lemma one_animation_scroll:
  "one_animation v \<Longrightarrow> tidy_viewport_set_origin v x y = Inr v' \<Longrightarrow> one_animation v'"
  using viewport_animation(2) one_animation_same by blast

lemma one_animation_perform:
  assumes "one_animation v" and "perform op v = Inr v'"
  shows "one_animation v'"
proof (cases op)
  case (SetZoomLevelAt zoom x y)
  with assms(2) obtain ok where "view_set_zoom_level_at v zoom x y = Inr (ok, v')"
    by (auto split: sum.splits)
  with assms(1) show ?thesis by (rule one_animation_set_zoom_level_at)
qed (use assms in \<open>auto intro: one_animation_center_on one_animation_set_size one_animation_stop
      one_animation_go_to one_animation_go_to_with_duration one_animation_set_zoom_level
      one_animation_ensure_visible one_animation_scroll one_animation_new_frame
      one_animation_completed\<close>)

lemma one_animation_perform_all:
  assumes "one_animation v" and "perform_all ops v = Inr v'"
  shows "one_animation v'"
proof -
  have "fold (\<lambda>op. case_sum Inl (perform op)) os (Inl e) = Inl e"
    for e os by (induction os) simp_all
  note stuck = this
  from assms show ?thesis
    unfolding perform_all_def
  proof (induction ops arbitrary: v)
    case Nil
    then show ?case by simp
  next
    case (Cons op ops)
    show ?case
    proof (cases "perform op v")
      case (Inl e)
      with Cons.prems(2) show ?thesis by (simp add: stuck)
    next
      case (Inr u)
      with Cons.prems(1) have "one_animation u" by (rule one_animation_perform)
      with Cons.IH [of u] Cons.prems(2) Inr show ?thesis by simp
    qed
  qed
qed

subsection \<open>The centre a centring stores\<close>






subsection \<open>The grid after a reconciliation and after a centring\<close>












subsection \<open>The visible range in closed form\<close>





section \<open>The anchor on a grid that is not square\<close>

text \<open>
  C3 (anchor computation). The claim has the new anchor clamped per axis, the \<open>y\<close> axis
  against the grid's vertical extent. \<^verbatim>\<open>view_update_anchor\<close> computes one \<open>max\<close>, from
  the grid's width, and clamps both axes with it; \<^verbatim>\<open>resize_viewport\<close> beside it uses the
  width for the horizontal and the height for the vertical adjustment. On a grid of 256
  columns and 512 rows at zoom level 8, for the centre \<open>(100, 130000)\<close>, the code sets the
  anchor's \<open>y\<close> to \<open>256 * 256 - 16383 = 49153\<close>, where the claim's clamp against the height
  gives \<open>130000 - 16383 = 113617\<close>.
\<close>

theorem view_update_anchor_tall_grid:
  "view_update_anchor tall_view 100 130000 =
     Inr (tall_view\<lparr>anchor := \<lparr>fx = 0, fy = 49153\<rparr>, anchor_zoom_level := 8\<rparr>)"
  by (simp add: view_update_anchor_def rebased_anchor_def tall_view_def sample_view_def
      tall_source_def sample_source_def G_MAXINT16_def guint_of_int_def champlain_zoom_level_get_width_def
      Let_def)

theorem view_update_anchor_tall_grid_witness:
  "fy (anchor (projr (view_update_anchor tall_view 100 130000))) = 49153 \<and>
   fy (anchor (projr (view_update_anchor tall_view 100 130000))) \<noteq> 130000 - 16383"
  using view_update_anchor_tall_grid by simp

section \<open>Stopping a go-to\<close>

text \<open>
  C10 (stopping a go-to). With no go-to context, \<^verbatim>\<open>champlain_view_stop_go_to\<close> returns
  the view as it is: no state changes and nothing is emitted. With a context, one call stops
  the context's timeline, emits \<^verbatim>\<open>animation-completed::go-to\<close> once and clears the
  context, and nothing else changes; a second call is then a no-op.
\<close>

theorem champlain_view_stop_go_to_once:
  "(goto_context v = None \<longrightarrow> champlain_view_stop_go_to v = v) \<and>
   (\<forall>ctx. goto_context v = Some ctx \<longrightarrow>
      champlain_view_stop_go_to v =
        v\<lparr>timelines := (timelines v)[ctx_timeline ctx :=
               (timelines v ! ctx_timeline ctx)\<lparr>tl_running := False\<rparr>],
          effects := effects v @ [SignalEmit ''animation-completed::go-to''],
          goto_context := None\<rparr> \<and>
      (ctx_timeline ctx < length (timelines v) \<longrightarrow>
         \<not> tl_running (timelines (champlain_view_stop_go_to v) ! ctx_timeline ctx)) \<and>
      champlain_view_stop_go_to (champlain_view_stop_go_to v) = champlain_view_stop_go_to v)"
  by (simp add: champlain_view_stop_go_to_def)

theorem champlain_view_stop_go_to_once_witness:
  "champlain_view_stop_go_to sample_view = sample_view \<and>
   goto_context animating_view = Some sample_context \<and>
   effects (champlain_view_stop_go_to animating_view) =
     [SignalEmit ''animation-completed::go-to''] \<and>
   goto_context (champlain_view_stop_go_to animating_view) = None \<and>
   \<not> tl_running (timelines (champlain_view_stop_go_to animating_view) ! 0) \<and>
   champlain_view_stop_go_to (champlain_view_stop_go_to animating_view) =
     champlain_view_stop_go_to animating_view"
  using champlain_view_stop_go_to_once [of sample_view]
    champlain_view_stop_go_to_once [of animating_view]
  by (simp add: animating_view_def sample_view_def sample_context_def
      champlain_view_stop_go_to_def)

section \<open>Rejected zoom changes\<close>

text \<open>
  C4 (zoom-change error handling), as the claim states it, fails for the plain setter:
  \<^verbatim>\<open>champlain_view_set_zoom_level\<close> is a \<^verbatim>\<open>void\<close> function. Asked for zoom level 19
  where the maximum is 18, it returns normally with the view unchanged; the outcome carries
  no failure value, and the caller is told nothing.
\<close>

theorem set_zoom_level_gives_no_indication:
  "ZOOM_LEVEL_OUT_OF_RANGE sample_view 19 \<and>
   \<not> isl (champlain_view_set_zoom_level sample_view 19) \<and>
   champlain_view_set_zoom_level sample_view 19 = Inr sample_view"
  by (simp add: champlain_view_set_zoom_level_def ZOOM_LEVEL_OUT_OF_RANGE_def sample_view_def)

text \<open>
  C4, amended. For a requested zoom level equal to the current one or outside
  \<open>[min_zoom_level, max_zoom_level]\<close>, both operations leave the whole view unchanged;
  \<^verbatim>\<open>view_set_zoom_level_at\<close> returns \<^verbatim>\<open>FALSE\<close>, and
  \<^verbatim>\<open>champlain_view_set_zoom_level\<close> returns nothing.
\<close>

theorem zoom_change_rejected:
  assumes "zoom = zoom_level v \<or> ZOOM_LEVEL_OUT_OF_RANGE v zoom"
  shows "champlain_view_set_zoom_level v zoom = Inr v \<and>
         view_set_zoom_level_at v zoom x y = Inr (False, v)"
  using assms by (auto simp: champlain_view_set_zoom_level_def view_set_zoom_level_at_def)

theorem zoom_change_rejected_witness:
  "ZOOM_LEVEL_OUT_OF_RANGE sample_view 19 \<and>
   champlain_view_set_zoom_level sample_view 19 = Inr sample_view \<and>
   view_set_zoom_level_at sample_view 19 50 50 = Inr (False, sample_view) \<and>
   champlain_view_set_zoom_level sample_view 3 = Inr sample_view \<and>
   view_set_zoom_level_at sample_view 3 50 50 = Inr (False, sample_view)"
proof -
  have a: "19 = zoom_level sample_view \<or> ZOOM_LEVEL_OUT_OF_RANGE sample_view 19"
    by (simp add: ZOOM_LEVEL_OUT_OF_RANGE_def sample_view_def)
  have b: "3 = zoom_level sample_view \<or> ZOOM_LEVEL_OUT_OF_RANGE sample_view 3"
    by (simp add: sample_view_def)
  show ?thesis
    using zoom_change_rejected [OF a, of 50 50] zoom_change_rejected [OF b, of 50 50]
    by (simp add: ZOOM_LEVEL_OUT_OF_RANGE_def sample_view_def)
qed

section \<open>Arrival of a go-to\<close>




section \<open>A second go-to\<close>

text \<open>
  C6 (go-to cancellation), as the claim states it, fails for a second go-to of duration
  zero, which is what \<^verbatim>\<open>champlain_view_go_to\<close> asks for at zoom level 0 (the duration is
  \<open>500 * zoom_level / 2\<close>): \<^verbatim>\<open>champlain_view_go_to_with_duration\<close> then recentres and
  returns before it reaches \<^verbatim>\<open>champlain_view_stop_go_to\<close>. The first animation's context
  stays, its timeline still runs, and its completion handler fires later.
\<close>

theorem go_to_zero_duration_keeps_animation:
  "case champlain_view_go_to kinetic_view 5 5 of
     Inl e \<Rightarrow> False
   | Inr v \<Rightarrow>
       goto_context v = Some sample_context \<and>
       map tl_running (timelines v) = [True] \<and>
       goto_context (clutter_timeline_emit_completed v 0) = None \<and>
       effects (clutter_timeline_emit_completed v 0) =
         effects v @ [SignalEmit ''animation-completed::go-to'']"
proof -
  have now: "champlain_view_go_to kinetic_view 5 5 = champlain_view_center_on kinetic_view 5 5"
    by (simp add: champlain_view_go_to_def champlain_view_go_to_with_duration_def
        gint_of_real_def kinetic_view_def)
  have "get_tile_size (map_source kinetic_view) \<noteq> 0"
    by (simp add: kinetic_view_def animating_view_def sample_view_def sample_source_def)
  from champlain_view_center_on_runs [OF this, of 5 5] obtain v where
    v: "champlain_view_center_on kinetic_view 5 5 = Inr v" and "same_frame kinetic_view v"
    by blast
  then have "goto_context v = Some sample_context"
    "timelines v = [\<lparr>tl_duration = 300, tl_running = True, tl_data = sample_context\<rparr>]"
    by (simp_all add: same_frame_def kinetic_view_def animating_view_def)
  then show ?thesis
    by (simp add: now v clutter_timeline_emit_completed_def timeline_completed_def
        champlain_view_stop_go_to_def)
qed

text \<open>
  C6, amended. Starting a second go-to of non-zero duration while a first one runs stops
  the first timeline and discards its context (emitting \<^verbatim>\<open>animation-completed::go-to\<close>
  once) before the new context is created on a fresh timeline: afterwards the new timeline
  runs, the first does not, so the clock no longer delivers its completion; and on a view
  with at most one animation, the new timeline is the only one that runs. A second go-to of
  duration zero is a \<^verbatim>\<open>center_on\<close>: it returns (the tile size being non-zero) with the
  first go-to's context and the timelines as they were. At most one animation is active on
  every view reached from one without timelines by the operations on a view.
\<close>

theorem go_to_supersedes:
  assumes "goto_context v = Some ctx1"
    and "ctx_timeline ctx1 < length (timelines v)"
  shows
    "(0 < duration \<longrightarrow>
       (\<exists>v' ctx2.
          champlain_view_go_to_with_duration v lat lon duration = Inr v' \<and>
          goto_context v' = Some ctx2 \<and>
          ctx_timeline ctx2 \<noteq> ctx_timeline ctx1 \<and>
          ctx_timeline ctx2 < length (timelines v') \<and>
          tl_running (timelines v' ! ctx_timeline ctx2) \<and>
          \<not> tl_running (timelines v' ! ctx_timeline ctx1) \<and>
          effects v' = effects v @ [SignalEmit ''animation-completed::go-to''] \<and>
          clutter_timeline_emit_completed v' (ctx_timeline ctx1) = v' \<and>
          (one_animation v \<longrightarrow>
             one_animation v' \<and>
             (\<forall>t < length (timelines v').
                tl_running (timelines v' ! t) \<longleftrightarrow> t = ctx_timeline ctx2)))) \<and>
     champlain_view_go_to_with_duration v lat lon 0 = champlain_view_center_on v lat lon \<and>
     (\<forall>v'. champlain_view_go_to_with_duration v lat lon 0 = Inr v' \<longrightarrow>
        goto_context v' = Some ctx1 \<and> timelines v' = timelines v) \<and>
     (get_tile_size (map_source v) \<noteq> 0 \<longrightarrow>
        (\<exists>v'. champlain_view_go_to_with_duration v lat lon 0 = Inr v')) \<and>
     (\<forall>v0 ops. timelines v0 = [] \<and> perform_all ops v0 = Inr v \<longrightarrow> one_animation v)"
proof (intro conjI impI allI)
  assume d: "0 < duration"
  let ?v1 = "champlain_view_stop_go_to v"
  let ?ctx2 = "\<lparr>ctx_timeline = length (timelines ?v1), to_latitude = lat, to_longitude = lon,
                 from_latitude = latitude ?v1, from_longitude = longitude ?v1\<rparr>"
  let ?v' = "?v1\<lparr>goto_context := Some ?ctx2,
                timelines := timelines ?v1 @
                  [\<lparr>tl_duration = duration, tl_running = True, tl_data = ?ctx2\<rparr>]\<rparr>"
  have run: "champlain_view_go_to_with_duration v lat lon duration = Inr ?v'"
    using d by (simp add: champlain_view_go_to_with_duration_def Let_def)
  have len: "length (timelines ?v1) = length (timelines v)"
    by (rule champlain_view_stop_go_to_fields)
  have only: "one_animation ?v' \<and>
      (\<forall>t < length (timelines ?v'). tl_running (timelines ?v' ! t) \<longleftrightarrow> t = ctx_timeline ?ctx2)"
    if one: "one_animation v"
  proof -
    from one run have "one_animation ?v'" by (rule one_animation_go_to_with_duration)
    moreover have "\<forall>t < length (timelines ?v').
        tl_running (timelines ?v' ! t) \<longleftrightarrow> t = ctx_timeline ?ctx2"
      using champlain_view_stop_go_to_quiet [OF one]
      by (auto simp: nth_append len)
    ultimately show ?thesis by blast
  qed
  have rest: "goto_context ?v' = Some ?ctx2"
    "ctx_timeline ?ctx2 \<noteq> ctx_timeline ctx1"
    "ctx_timeline ?ctx2 < length (timelines ?v')"
    "tl_running (timelines ?v' ! ctx_timeline ?ctx2)"
    "\<not> tl_running (timelines ?v' ! ctx_timeline ctx1)"
    "effects ?v' = effects v @ [SignalEmit ''animation-completed::go-to'']"
    "clutter_timeline_emit_completed ?v' (ctx_timeline ctx1) = ?v'"
    using assms
    by (auto simp: champlain_view_stop_go_to_def clutter_timeline_emit_completed_def
        nth_append nth_list_update)
  show "\<exists>v' ctx2.
          champlain_view_go_to_with_duration v lat lon duration = Inr v' \<and>
          goto_context v' = Some ctx2 \<and>
          ctx_timeline ctx2 \<noteq> ctx_timeline ctx1 \<and>
          ctx_timeline ctx2 < length (timelines v') \<and>
          tl_running (timelines v' ! ctx_timeline ctx2) \<and>
          \<not> tl_running (timelines v' ! ctx_timeline ctx1) \<and>
          effects v' = effects v @ [SignalEmit ''animation-completed::go-to''] \<and>
          clutter_timeline_emit_completed v' (ctx_timeline ctx1) = v' \<and>
          (one_animation v \<longrightarrow>
             one_animation v' \<and>
             (\<forall>t < length (timelines v').
                tl_running (timelines v' ! t) \<longleftrightarrow> t = ctx_timeline ctx2))"
    using run rest only by (intro exI [of _ ?v'] exI [of _ ?ctx2]) blast
next
  show "champlain_view_go_to_with_duration v lat lon 0 = champlain_view_center_on v lat lon"
    by (simp add: champlain_view_go_to_with_duration_def)
next
  fix v'
  assume "champlain_view_go_to_with_duration v lat lon 0 = Inr v'"
  then have "champlain_view_center_on v lat lon = Inr v'"
    by (simp add: champlain_view_go_to_with_duration_def)
  from champlain_view_center_on_animation [OF this] assms(1)
  show "goto_context v' = Some ctx1" "timelines v' = timelines v"
    by (simp_all add: same_animation_def)
next
  assume "get_tile_size (map_source v) \<noteq> 0"
  from champlain_view_center_on_runs [OF this, of lat lon]
  show "\<exists>v'. champlain_view_go_to_with_duration v lat lon 0 = Inr v'"
    by (auto simp: champlain_view_go_to_with_duration_def)
next
  fix v0 ops
  assume "timelines v0 = [] \<and> perform_all ops v0 = Inr v"
  then show "one_animation v"
    using one_animation_perform_all [of v0 ops v] one_animation_fresh [of v0] by blast
qed

theorem go_to_supersedes_witness:
  "goto_context animating_view = Some sample_context \<and>
   timelines sample_view = [] \<and>
   perform_all [GoToWithDuration 10 20 300] sample_view = Inr animating_view \<and>
   one_animation animating_view \<and>
   map_option ctx_timeline
     (goto_context (projr (champlain_view_go_to_with_duration animating_view 5 5 200))) = Some 1 \<and>
   map tl_running
     (timelines (projr (champlain_view_go_to_with_duration animating_view 5 5 200))) =
     [False, True] \<and>
   one_animation (projr (champlain_view_go_to_with_duration animating_view 5 5 200)) \<and>
   (\<exists>v'. champlain_view_go_to_with_duration animating_view 5 5 0 = Inr v' \<and>
      goto_context v' = Some sample_context \<and> map tl_running (timelines v') = [True])"
proof -
  have a: "goto_context animating_view = Some sample_context"
    and b: "ctx_timeline sample_context < length (timelines animating_view)"
    and sz: "get_tile_size (map_source animating_view) \<noteq> 0"
    and f: "timelines sample_view = []"
    by (simp_all add: animating_view_def sample_view_def sample_context_def sample_source_def)
  have p: "perform_all [GoToWithDuration 10 20 300] sample_view = Inr animating_view"
    by (simp add: perform_all_def champlain_view_go_to_with_duration_def
        champlain_view_stop_go_to_def sample_view_def animating_view_def sample_context_def Let_def)
  have e: "champlain_view_go_to_with_duration animating_view 5 5 200 =
    Inr (animating_view\<lparr>
      timelines := [\<lparr>tl_duration = 300, tl_running = False, tl_data = sample_context\<rparr>,
                    \<lparr>tl_duration = 200, tl_running = True,
                     tl_data = \<lparr>ctx_timeline = 1, to_latitude = 5, to_longitude = 5,
                                from_latitude = 0, from_longitude = 0\<rparr>\<rparr>],
      effects := [SignalEmit ''animation-completed::go-to''],
      goto_context := Some \<lparr>ctx_timeline = 1, to_latitude = 5, to_longitude = 5,
                             from_latitude = 0, from_longitude = 0\<rparr>\<rparr>)"
    by (simp add: champlain_view_go_to_with_duration_def champlain_view_stop_go_to_def
        animating_view_def sample_view_def sample_context_def Let_def)
  note t = go_to_supersedes [OF a b, of _ 5 5]
  from t f p have one: "one_animation animating_view" by blast
  from t [of 200] one have "one_animation (projr (champlain_view_go_to_with_duration animating_view 5 5 200))"
    by auto
  moreover from t [of 0] sz obtain v' where
    "champlain_view_go_to_with_duration animating_view 5 5 0 = Inr v'"
    "goto_context v' = Some sample_context" "timelines v' = timelines animating_view"
    by blast
  then have "\<exists>v'. champlain_view_go_to_with_duration animating_view 5 5 0 = Inr v' \<and>
      goto_context v' = Some sample_context \<and> map tl_running (timelines v') = [True]"
    by (auto simp: animating_view_def)
  ultimately show ?thesis
    using a f p one by (simp add: e)
qed

section \<open>Before the first centring\<close>






section \<open>Making two positions visible, on a box that just fits\<close>

text \<open>
  C8 (\<^verbatim>\<open>ensure_visible\<close>). The claim has the zoom level chosen so that the box padded by
  10% fits the viewport. The code computes the padded width and height, and tests the
  unpadded box; the padding only shifts the centre, towards the larger latitude and
  longitude. In a 100 by 100 viewport at zoom level 3, for the positions \<open>(0, 0)\<close> and
  \<open>(8, 135 / 8)\<close>, the box is 96 pixels wide and 105 when padded: the code stays at zoom
  level 3 and centres on \<open>(22 / 5, 297 / 32)\<close>, and the viewport then begins at pixel
  \<open>(1026, 923)\<close> and spans 100 pixels, while the first position lies at pixel
  \<open>(1024, 1024)\<close>, outside it. The function's documentation promises that the two positions
  are visible.
\<close>

theorem ensure_visible_hides_first_position:
  "ensure_visible_target sample_view 0 0 8 (135 / 8) = (3, 22 / 5, 297 / 32) \<and>
   get_x sample_source 3 (135 / 8) - get_x sample_source 3 0 = 96 \<and>
   get_x sample_source 3 (135 / 8 * 1.1) - get_x sample_source 3 0 = 105 \<and>
   get_x sample_source 3 0 = 1024 \<and> get_y sample_source 3 0 = 1024 \<and>
   (case champlain_view_ensure_visible sample_view 0 0 8 (135 / 8) False of
      Inl e \<Rightarrow> False
    | Inr v \<Rightarrow>
        zoom_level v = 3 \<and>
        anchor v = \<lparr>fx = 0, fy = 0\<rparr> \<and>
        viewport_size v = \<lparr>rx = 1026, ry = 923, rwidth = 100, rheight = 100\<rparr>)"
proof -
  have target: "ensure_visible_target sample_view 0 0 8 (135 / 8) = (3, 22 / 5, 297 / 32)"
    by (simp add: ensure_visible_target_def ensure_visible_loop.simps sample_view_def
        sample_source_def gint_of_real_def Let_def)
  have pixels: "get_x sample_source 3 (135 / 8) - get_x sample_source 3 0 = 96"
    "get_x sample_source 3 (135 / 8 * 1.1) - get_x sample_source 3 0 = 105"
    "get_x sample_source 3 0 = 1024" "get_y sample_source 3 0 = 1024"
    by (simp_all add: sample_source_def gint_of_real_def)
  have zoom: "champlain_view_set_zoom_level sample_view 3 = Inr sample_view"
    by (simp add: champlain_view_set_zoom_level_def sample_view_def)
  have centre: "case champlain_view_center_on sample_view (22 / 5) (297 / 32) of
                  Inl e \<Rightarrow> False
                | Inr v \<Rightarrow>
                    zoom_level v = 3 \<and> anchor v = \<lparr>fx = 0, fy = 0\<rparr> \<and>
                    viewport_size v = \<lparr>rx = 1026, ry = 923, rwidth = 100, rheight = 100\<rparr>"
    by (simp add: model_defs sample_defs)
  show ?thesis
    using centre pixels by (simp add: champlain_view_ensure_visible_def target zoom)
qed

theorem ensure_visible_hides_first_position_witness:
  "fst (ensure_visible_target sample_view 0 0 8 (135 / 8)) = 3 \<and>
   get_x sample_source 3 0 <
     rx (viewport_size (projr (champlain_view_ensure_visible sample_view 0 0 8 (135 / 8) False)))"
  using ensure_visible_hides_first_position
  by (simp split: sum.splits)

section \<open>Scrolling down along the left edge\<close>

text \<open>
  C1 (anchor invisibility). \<^verbatim>\<open>viewport_pos_changed_cb\<close> moves the viewport's origin by the
  anchor's change, on both axes, only if the anchor's \<open>x\<close> changed. At zoom level 8, near
  the left edge of the map, with the anchor at the origin, scrolling down from
  \<open>(0, 32600)\<close> to \<open>(0, 32700)\<close> makes \<^verbatim>\<open>view_update_anchor\<close> move the anchor to
  \<open>(0, 16367)\<close>: its \<open>x\<close> is clamped to 0 as before, so the origin is left where it is.
  The tile at column 0, row 127, which showed 188 pixels above the viewport's top edge, is
  now placed 16555 pixels above it, and the view loads the tiles of rows 191 and 192 in
  its stead.
\<close>

theorem scroll_down_jumps:
  "tile_screen_position scrolled_view (done_tile 8 0 127) = Some (0, - 188) \<and>
   (case viewport_pos_changed_cb scrolled_view of
      Inl e \<Rightarrow> False
    | Inr v \<Rightarrow>
        anchor v = \<lparr>fx = 0, fy = 16367\<rparr> \<and>
        viewport_origin v = viewport_origin scrolled_view \<and>
        tile_screen_position v (done_tile 8 0 127) = Some (0, - 16555) \<and>
        map_option (map (\<lambda>t. (tile_x t, tile_y t)) \<circ> zl_tiles \<circ> current_level) (view_map v) =
          Some [(0, 191), (0, 192), (1, 191), (1, 192)])"
  by (simp add: model_defs sample_defs tile_screen_position_def)

theorem scroll_down_jumps_witness:
  "tile_screen_position (projr (viewport_pos_changed_cb scrolled_view)) (done_tile 8 0 127) \<noteq>
   tile_screen_position scrolled_view (done_tile 8 0 127)"
  using scroll_down_jumps by (simp split: sum.splits)

section \<open>Running the reconciliation twice\<close>

text \<open>
  C7 (reconciliation idempotence). If a run of \<^verbatim>\<open>view_load_visible_tiles\<close> returns the
  view \<open>v'\<close>, a second run on \<open>v'\<close>, with nothing changed in between, returns \<open>v'\<close>
  again: the tile array, the aggregate state and the record of effects are the same, so the
  second run requests no tile, takes none out and notifies nothing.
\<close>

theorem reconciliation_idempotent:
  assumes "view_load_visible_tiles v = Inr v'"
  shows "view_load_visible_tiles v' = Inr v'"
proof -
  from assms obtain m where m: "view_map v = Some m"
    by (auto simp: view_load_visible_tiles_def split: option.splits)
  from assms m have sz: "get_tile_size (map_source v) \<noteq> 0"
    by (auto simp: view_load_visible_tiles_def split: if_splits)
  obtain x_first y_first x_count y_count where
    r: "visible_range v (current_level m) = (x_first, y_first, x_count, y_count)"
    by (cases "visible_range v (current_level m)") auto
  let ?ts = "reconciled_tiles v m x_first y_first x_count y_count"
  let ?m' = "m\<lparr>current_level := (current_level m)\<lparr>zl_tiles := ?ts\<rparr>\<rparr>"
  from view_load_visible_tiles_result [OF m sz r] assms obtain e' where
    v': "v' = with_tiles v m ?ts (aggregate_state ?ts) e'"
    by auto
  have m': "view_map v' = Some ?m'" and sz': "get_tile_size (map_source v') \<noteq> 0"
    and e': "effects v' = e'"
    using sz by (simp_all add: v' with_tiles_fields)
  have r': "visible_range v' (current_level ?m') = (x_first, y_first, x_count, y_count)"
    using r by (simp add: v' visible_range_with_tiles)
  have all_in: "\<forall>t \<in> set ?ts. in_range x_first y_first x_count y_count t"
    by (simp add: reconciled_tiles_in_range)
  have keep: "filter (in_range x_first y_first x_count y_count) ?ts = ?ts"
    and none: "filter (\<lambda>t. \<not> in_range x_first y_first x_count y_count t) ?ts = []"
    using all_in by (simp_all add: filter_empty_conv)
  have ev: "remove_old_tiles x_first y_first x_count y_count 0 (current_level ?m') e' =
            (current_level ?m', e')"
    using remove_old_tiles_filter
      [of 0 "current_level ?m'" x_first y_first x_count y_count e']
    by (simp add: keep none)
  have w: "v'\<lparr>view_map := Some ?m', effects := e'\<rparr> = v'"
    by (simp add: v' with_tiles_def)
  have l: "load_new_tiles x_first y_first x_count y_count v' = Inr v'"
    using m' by (rule load_new_tiles_nothing) (simp add: reconciled_tiles_cover)
  have u: "view_update_state v' = Inr v'"
    unfolding v' by (rule view_update_state_settled)
  show ?thesis
    using m' sz' r' ev l u e' by (simp add: view_load_visible_tiles_def w)
qed

theorem reconciliation_idempotent_witness:
  "\<not> isl (view_load_visible_tiles edge_view) \<and>
   view_load_visible_tiles (projr (view_load_visible_tiles edge_view)) =
     view_load_visible_tiles edge_view"
proof -
  have "view_map edge_view \<noteq> None" "get_tile_size (map_source edge_view) \<noteq> 0"
    by (simp_all add: edge_view_def sample_view_def sample_source_def)
  from view_load_visible_tiles_runs [OF this] obtain v' where
    a: "view_load_visible_tiles edge_view = Inr v'" by blast
  from reconciliation_idempotent [OF a] a show ?thesis by simp
qed

section \<open>What the reconciliation covers\<close>




end
